theory Spec2Isabelle
  imports Complex_Main "HOL-Library.Word"
begin

section \<open>SpectralTilt: the spectral tilt filter of lsp-dsp-units\<close>

text \<open>
  A shallow embedding of \<^verbatim>\<open>src/main/filters/SpectralTilt.cpp\<close>.

  Conventions of the model:
  \<^item> \<^verbatim>\<open>float\<close> values are real numbers: rounding, infinities and NaN are not
    represented, so every statement about sample or coefficient values is a statement
    under exact real arithmetic;
  \<^item> \<^verbatim>\<open>size_t\<close> is a 64-bit word (\<^verbatim>\<open>nOrder\<close>, \<^verbatim>\<open>nSampleRate\<close>), so that
    \<^verbatim>\<open>nOrder + 1\<close> and \<^verbatim>\<open>nOrder - 1\<close> wrap around as they do in the source;
  \<^item> a buffer is a list of samples; an entry point that receives the pointer
    \<^verbatim>\<open>dst\<close> and a \<^verbatim>\<open>count\<close> returns the new contents of the buffer. Reading or
    writing beyond the end of a buffer is undefined behaviour in the source, so the
    statements about buffers assume \<open>count\<close> does not exceed their length;
  \<^item> a source pointer that may be \<^verbatim>\<open>NULL\<close> is an \<open>option\<close>;
  \<^item> the class declaration is not part of the source file: the fields of the object and
    of \<^verbatim>\<open>bilinear_spec_t\<close> and the enumerators are those the source file uses.
\<close>

subsection \<open>Constants (lines 29-32)\<close>

definition MAX_ORDER :: "64 word" where
  "MAX_ORDER = 100"

definition DFL_LOWER_FREQUENCY :: real where
  "DFL_LOWER_FREQUENCY = 0.1"

definition DFL_UPPER_FREQUENCY :: real where
  "DFL_UPPER_FREQUENCY = 20000"

definition BUF_LIM_SIZE :: nat where
  "BUF_LIM_SIZE = 256"

subsection \<open>Types\<close>

text \<open>The two enumerations, with the enumerators the source file names.\<close>

datatype stlt_slope_unit_t =
    STLT_SLOPE_UNIT_NEPER_PER_NEPER
  | STLT_SLOPE_UNIT_DB_PER_OCTAVE
  | STLT_SLOPE_UNIT_DB_PER_DECADE
  | STLT_SLOPE_UNIT_NONE

datatype stlt_norm_t =
    STLT_NORM_NONE
  | STLT_NORM_AT_DC
  | STLT_NORM_AT_NYQUIST
  | STLT_NORM_AUTO

text \<open>\<^verbatim>\<open>bilinear_spec_t\<close>: the first-order analog section (b1 s + b0) / (a1 s + a0).\<close>

record bilinear_spec_t =
  b0 :: real
  b1 :: real
  a0 :: real
  a1 :: real

text \<open>
  \<^verbatim>\<open>dsp::f_cascade_t\<close>: the analog second-order section, numerator \<^verbatim>\<open>t[0..2]\<close> and
  denominator \<^verbatim>\<open>b[0..2]\<close>.
\<close>

record f_cascade_t =
  t_0 :: real
  t_1 :: real
  t_2 :: real
  b_0 :: real
  b_1 :: real
  b_2 :: real

text \<open>\<^verbatim>\<open>dsp::biquad_x1_t\<close>: the digital second-order section.\<close>

record biquad_x1_t =
  bq_b0 :: real
  bq_b1 :: real
  bq_b2 :: real
  bq_a1 :: real
  bq_a2 :: real

subsection \<open>External collaborators\<close>

text \<open>
  Modelled from the spec: \<^verbatim>\<open>dsp::bilinear_transform_x1\<close> belongs to the DSP library
  and is not part of the source file. The spec describes it as the bilinear substitution
  that maps an analog second-order section to a digital one, with the denominator
  coefficients stored with the opposite sign. Substituting
  s = kf (z - 1) / (z + 1) and normalising by the constant term of the
  denominator gives the coefficients below.
\<close>

definition bilinear_transform_x1 :: "f_cascade_t \<Rightarrow> real \<Rightarrow> biquad_x1_t" where
  "bilinear_transform_x1 bc kf =
     (let kf2 = kf * kf;
          T0 = t_0 bc; T1 = t_1 bc * kf; T2 = t_2 bc * kf2;
          B0 = b_0 bc; B1 = b_1 bc * kf; B2 = b_2 bc * kf2;
          N = 1 / (B0 + B1 + B2)
      in \<lparr> bq_b0 = (T0 + T1 + T2) * N,
           bq_b1 = 2 * (T0 - T2) * N,
           bq_b2 = (T0 - T1 + T2) * N,
           bq_a1 = 2 * (B2 - B0) * N,
           bq_a2 = (B1 - B2 - B0) * N \<rparr>)"

text \<open>
  Modelled from the spec: \<^verbatim>\<open>dsp::add2\<close> belongs to the DSP library. The spec
  describes it as the pure elementwise add-into on the first \<open>count\<close> samples.
\<close>

definition dsp_add2 :: "real list \<Rightarrow> real list \<Rightarrow> nat \<Rightarrow> real list" where
  "dsp_add2 dst src count =
     map2 (\<lambda>d x. d + x) (take count dst) (take count src) @ drop count dst"

text \<open>
  Modelled from the spec: \<^verbatim>\<open>dsp::mul2\<close> belongs to the DSP library. The spec
  describes it as the pure elementwise multiply-into on the first \<open>count\<close> samples.
\<close>

definition dsp_mul2 :: "real list \<Rightarrow> real list \<Rightarrow> nat \<Rightarrow> real list" where
  "dsp_mul2 dst src count =
     map2 (\<lambda>d x. d * x) (take count dst) (take count src) @ drop count dst"

text \<open>
  Modelled from the spec: \<^verbatim>\<open>dsp::copy\<close> belongs to the DSP library. The spec
  describes it as the copy of the first \<open>count\<close> samples.
\<close>

definition dsp_copy :: "real list \<Rightarrow> real list \<Rightarrow> nat \<Rightarrow> real list" where
  "dsp_copy dst src count = take count src @ drop count dst"

text \<open>
  Modelled from the spec: \<^verbatim>\<open>dsp::fill_zero\<close> belongs to the DSP library. The spec
  describes it as the zero-fill of the first \<open>count\<close> samples.
\<close>

definition dsp_fill_zero :: "real list \<Rightarrow> nat \<Rightarrow> real list" where
  "dsp_fill_zero dst count = replicate count 0 @ drop count dst"

text \<open>
  Modelled from the spec: the filter chain \<^verbatim>\<open>sFilter\<close> (class \<^verbatim>\<open>FilterBank\<close>) is
  declared and implemented outside the source file. The spec gives its contract:
  \<^item> \<open>init(maxSections)\<close> pre-allocates the capacity;
  \<^item> \<open>begin()\<close> and \<open>end(flag)\<close> bracket a chain-rebuild transaction;
  \<^item> \<open>addSection()\<close> allocates the next section slot within the transaction and returns
    a pointer to it, or null when the capacity is exhausted;
  \<^item> \<open>process(dst, src, count)\<close> runs the assembled chain over a buffer, maintaining the
    internal delay-line state across calls.

  The model keeps the capacity, the ordered section slots (the coefficients together with
  the two delay-line values of the section) and a flag that tells whether a rebuild
  transaction is open. A slot is addressed by its index, and a rebuild starts every slot
  with cleared delay lines.
\<close>

type_synonym section_t = "biquad_x1_t \<times> (real \<times> real)"

record FilterBank =
  nMaxItems :: nat
  vChains :: "section_t list"
  bBuilding :: bool

text \<open>
  Modelled from the spec: the coefficients of a section slot that \<^verbatim>\<open>add_chain\<close> has
  allocated and the caller has not yet filled.
\<close>

definition zero_biquad :: biquad_x1_t where
  "zero_biquad = \<lparr> bq_b0 = 0, bq_b1 = 0, bq_b2 = 0, bq_a1 = 0, bq_a2 = 0 \<rparr>"

text \<open>
  Modelled from the spec: \<^verbatim>\<open>FilterBank::init\<close> is not part of the source file; it
  pre-allocates the capacity and leaves the chain empty.
\<close>

definition FilterBank_init :: "nat \<Rightarrow> FilterBank" where
  "FilterBank_init filters = \<lparr> nMaxItems = filters, vChains = [], bBuilding = False \<rparr>"

text \<open>
  Modelled from the spec: \<^verbatim>\<open>FilterBank::begin\<close> is not part of the source file; it
  opens a chain-rebuild transaction, which starts from an empty chain.
\<close>

definition FilterBank_begin :: "FilterBank \<Rightarrow> FilterBank" where
  "FilterBank_begin fb = fb\<lparr> vChains := [], bBuilding := True \<rparr>"

text \<open>
  Modelled from the spec: \<^verbatim>\<open>FilterBank::add_chain\<close> is not part of the source file;
  it allocates the next section slot and returns it, or returns null (\<open>None\<close>) when
  the capacity is exhausted.
\<close>

definition FilterBank_add_chain :: "FilterBank \<Rightarrow> (nat \<times> FilterBank) option" where
  "FilterBank_add_chain fb =
     (if length (vChains fb) < nMaxItems fb
      then Some (length (vChains fb),
                 fb\<lparr> vChains := vChains fb @ [(zero_biquad, (0, 0))] \<rparr>)
      else None)"

text \<open>
  Modelled from the spec: \<^verbatim>\<open>FilterBank::end\<close> is not part of the source file; it
  closes the chain-rebuild transaction. The spec gives its flag no effect on the sections.
\<close>

definition FilterBank_end :: "bool \<Rightarrow> FilterBank \<Rightarrow> FilterBank" where
  "FilterBank_end flag fb = fb\<lparr> bBuilding := False \<rparr>"

text \<open>
  Modelled from the spec: one sample through one section of the chain, which is not part
  of the source file. The section is a second-order digital filter with two delay-line
  values; its denominator coefficients are stored with the opposite sign, so they are
  added.
\<close>

fun section_step :: "section_t \<Rightarrow> real \<Rightarrow> section_t \<times> real" where
  "section_step (f, (d0, d1)) x =
     (let y = bq_b0 f * x + d0
      in ((f, (bq_b1 f * x + bq_a1 f * y + d1, bq_b2 f * x + bq_a2 f * y)), y))"

text \<open>
  Modelled from the spec: one sample through the ordered sections of the chain, the
  output of a section being the input of the next.
\<close>

fun chain_step :: "section_t list \<Rightarrow> real \<Rightarrow> section_t list \<times> real" where
  "chain_step [] x = ([], x)"
| "chain_step (sec # secs) x =
     (let (sec', y) = section_step sec x;
          (secs', z) = chain_step secs y
      in (sec' # secs', z))"

text \<open>
  Modelled from the spec: a run of samples through the chain, in order, the delay lines
  carried from one sample to the next.
\<close>

fun chain_run :: "section_t list \<Rightarrow> real list \<Rightarrow> section_t list \<times> real list" where
  "chain_run secs [] = (secs, [])"
| "chain_run secs (x # xs) =
     (let (secs', y) = chain_step secs x;
          (secs'', ys) = chain_run secs' xs
      in (secs'', y # ys))"

text \<open>
  Modelled from the spec: \<^verbatim>\<open>FilterBank::process\<close> is not part of the source file; it
  runs the assembled chain over the first \<open>count\<close> samples of \<open>src\<close>, writes the
  result to \<open>dst\<close> and keeps the delay lines for the next call.
\<close>

definition FilterBank_process ::
  "FilterBank \<Rightarrow> real list \<Rightarrow> real list \<Rightarrow> nat \<Rightarrow> FilterBank \<times> real list" where
  "FilterBank_process fb dst src count =
     (let (secs', ys) = chain_run (vChains fb) (take count src)
      in (fb\<lparr> vChains := secs' \<rparr>, ys @ drop count dst))"

subsection \<open>The filter object\<close>

record SpectralTilt =
  nOrder :: "64 word"
  enSlopeUnit :: stlt_slope_unit_t
  enNorm :: stlt_norm_t
  fSlopeVal :: real
  fSlopeNepNep :: real
  fLowerFrequency :: real
  fUpperFrequency :: real
  nSampleRate :: "64 word"
  sFilter :: FilterBank
  bBypass :: bool
  bSync :: bool

text \<open>\<^verbatim>\<open>SpectralTilt::construct\<close> (lines 48-67).\<close>

definition construct :: SpectralTilt where
  "construct =
     \<lparr> nOrder = 1,
       enSlopeUnit = STLT_SLOPE_UNIT_NEPER_PER_NEPER,
       enNorm = STLT_NORM_AUTO,
       fSlopeVal = 0.5,
       fSlopeNepNep = 0.5,
       fLowerFrequency = DFL_LOWER_FREQUENCY,
       fUpperFrequency = DFL_UPPER_FREQUENCY,
       nSampleRate = - 1,
       sFilter = FilterBank_init (unat MAX_ORDER),
       bBypass = False,
       bSync = True \<rparr>"

text \<open>The sample rate as the \<^verbatim>\<open>float\<close> operand of the source's expressions.\<close>

definition fs :: "SpectralTilt \<Rightarrow> real" where
  "fs s = real (unat (nSampleRate s))"

text \<open>\<^verbatim>\<open>SpectralTilt::bilinear_coefficient\<close> (lines 71-74).\<close>

definition bilinear_coefficient :: "real \<Rightarrow> real \<Rightarrow> real" where
  "bilinear_coefficient angularFrequency samplerate =
     angularFrequency / tan (0.5 * angularFrequency / samplerate)"

text \<open>
  \<^verbatim>\<open>SpectralTilt::compute_bilinear_element\<close> (lines 77-128). It reads \<^verbatim>\<open>enNorm\<close>
  and \<^verbatim>\<open>nSampleRate\<close> of the object. The \<^verbatim>\<open>default\<close> label shares the branch of
  \<^verbatim>\<open>STLT_NORM_AT_DC\<close>.
\<close>

definition compute_bilinear_element ::
  "SpectralTilt \<Rightarrow> real \<Rightarrow> real \<Rightarrow> bilinear_spec_t" where
  "compute_bilinear_element s negZero negPole =
     (let spec = \<lparr> b0 = negZero, b1 = 1, a0 = negPole, a1 = 1 \<rparr>;
          g_a =
            (case enNorm s of
               STLT_NORM_NONE \<Rightarrow> 1
             | STLT_NORM_AT_NYQUIST \<Rightarrow>
                 (let pi_fs_sq = pi * pi * fs s * fs s;
                      den = pi_fs_sq * a1 spec * a1 spec + a0 spec * a0 spec;
                      re = (pi_fs_sq * b1 spec * a1 spec + a0 spec * b0 spec) / den;
                      im = pi * fs s * (b1 spec * a0 spec - a1 spec * b0 spec) / den
                  in 1 / sqrt (re * re + im * im))
             | _ \<Rightarrow> a0 spec / b0 spec)
      in spec\<lparr> b0 := b0 spec * g_a, b1 := b1 spec * g_a \<rparr>)"

subsection \<open>\<^verbatim>\<open>SpectralTilt::update_settings\<close> (lines 130-255)\<close>

text \<open>Lines 135-137: the order is forced even, then limited to \<^verbatim>\<open>MAX_ORDER\<close>.\<close>

definition force_order :: "SpectralTilt \<Rightarrow> SpectralTilt" where
  "force_order s =
     (let s1 = s\<lparr> nOrder := (if nOrder s mod 2 = 0 then nOrder s else nOrder s + 1) \<rparr>
      in s1\<lparr> nOrder := min (nOrder s1) MAX_ORDER \<rparr>)"

text \<open>Lines 140-184: the slope is converted to Neper-per-Neper.\<close>

definition convert_slope :: "SpectralTilt \<Rightarrow> SpectralTilt" where
  "convert_slope s =
     (case enSlopeUnit s of
        STLT_SLOPE_UNIT_DB_PER_OCTAVE \<Rightarrow>
          s\<lparr> fSlopeNepNep := fSlopeVal s * 0.16609640419483184814453125 \<rparr>
      | STLT_SLOPE_UNIT_DB_PER_DECADE \<Rightarrow>
          s\<lparr> fSlopeNepNep := fSlopeVal s * 0.05 \<rparr>
      | _ \<Rightarrow>
          s\<lparr> fSlopeNepNep := fSlopeVal s \<rparr>)"

text \<open>Lines 186-187: the automatic normalization is resolved.\<close>

definition resolve_norm :: "SpectralTilt \<Rightarrow> SpectralTilt" where
  "resolve_norm s =
     (if enNorm s = STLT_NORM_AUTO
      then s\<lparr> enNorm := (if fSlopeNepNep s \<le> 0 then STLT_NORM_AT_DC
                          else STLT_NORM_AT_NYQUIST) \<rparr>
      else s)"

text \<open>Lines 189-199: the band is validated.\<close>

definition validate_band :: "SpectralTilt \<Rightarrow> SpectralTilt" where
  "validate_band s =
     (let s1 = (if fLowerFrequency s \<ge> 0.5 * fs s
                then s\<lparr> fLowerFrequency := DFL_LOWER_FREQUENCY \<rparr> else s);
          s2 = (if fUpperFrequency s1 \<ge> 0.5 * fs s1
                then s1\<lparr> fUpperFrequency := DFL_UPPER_FREQUENCY \<rparr> else s1)
      in if fLowerFrequency s2 \<ge> fUpperFrequency s2
         then s2\<lparr> fLowerFrequency := DFL_LOWER_FREQUENCY,
                  fUpperFrequency := DFL_UPPER_FREQUENCY \<rparr>
         else s2)"

text \<open>
  Lines 222-251: the loop over \<open>n < nOrder\<close>. The result is the chain and a flag that is
  true when \<^verbatim>\<open>add_chain\<close> returned \<^verbatim>\<open>NULL\<close> and the function returned from inside
  the loop.
\<close>

function assemble_loop ::
  "SpectralTilt \<Rightarrow> real \<Rightarrow> real \<Rightarrow> nat \<Rightarrow> nat \<Rightarrow> real \<Rightarrow> real \<Rightarrow> FilterBank
     \<Rightarrow> FilterBank \<times> bool" where
  "assemble_loop s r c_fn order n negZero negPole fb =
     (if n < order then
        (if n mod 2 \<noteq> 0 then assemble_loop s r c_fn order (n + 1) negZero negPole fb
         else
           (let spec_now = compute_bilinear_element s negZero negPole;
                negZero1 = negZero * r;
                negPole1 = negPole * r;
                spec_nxt = compute_bilinear_element s negZero1 negPole1;
                negZero2 = negZero1 * r;
                negPole2 = negPole1 * r
            in case FilterBank_add_chain fb of
                 None \<Rightarrow> (fb, True)
               | Some (digitalbq, fb1) \<Rightarrow>
                   (let analogbq =
                          \<lparr> t_0 = b0 spec_now * b0 spec_nxt,
                            t_1 = b0 spec_now * b1 spec_nxt + b1 spec_now * b0 spec_nxt,
                            t_2 = b1 spec_now * b1 spec_nxt,
                            b_0 = a0 spec_now * a0 spec_nxt,
                            b_1 = a0 spec_now * a1 spec_nxt + a1 spec_now * a0 spec_nxt,
                            b_2 = a1 spec_now * a1 spec_nxt \<rparr>;
                        fb2 = fb1\<lparr> vChains := (vChains fb1)
                                [digitalbq := (bilinear_transform_x1 analogbq c_fn,
                                               snd (vChains fb1 ! digitalbq))] \<rparr>
                    in assemble_loop s r c_fn order (n + 1) negZero2 negPole2 fb2)))
      else (fb, False))"
  by pat_completeness auto
termination
  by (relation "measure (\<lambda>(s, r, c_fn, order, n, negZero, negPole, fb). order - n)") auto

declare assemble_loop.simps [simp del]

text \<open>Lines 210-251: the pole and zero ladder is set up and the chain is rebuilt.\<close>

definition assemble_chain :: "SpectralTilt \<Rightarrow> FilterBank \<times> bool" where
  "assemble_chain s =
     (let l_angf = 2 * pi * fLowerFrequency s;
          u_angf = 2 * pi * fUpperFrequency s;
          r = (u_angf / l_angf) powr (1 / real (unat (nOrder s - 1)));
          c_fn = bilinear_coefficient 1 (fs s);
          negZero = l_angf * (r powr (- fSlopeNepNep s));
          negPole = l_angf
      in assemble_loop s r c_fn (unat (nOrder s)) 0 negZero negPole
           (FilterBank_begin (sFilter s)))"

text \<open>The whole function.\<close>

definition update_settings :: "SpectralTilt \<Rightarrow> SpectralTilt" where
  "update_settings s =
     (if \<not> bSync s then s
      else
        (let s1 = validate_band (resolve_norm (convert_slope (force_order s)))
         in if enSlopeUnit s1 = STLT_SLOPE_UNIT_NONE \<or> fSlopeNepNep s1 = 0
            then s1\<lparr> bBypass := True, bSync := True \<rparr>
            else
              (let s2 = s1\<lparr> bBypass := False \<rparr>;
                   (fb, null) = assemble_chain s2
               in if null then s2\<lparr> sFilter := fb \<rparr>
                  else s2\<lparr> sFilter := FilterBank_end True fb, bSync := True \<rparr>)))"

subsection \<open>The streaming entry points\<close>

text \<open>
  Lines 275-284: the loop of \<^verbatim>\<open>process_add\<close> over blocks of at most
  \<^verbatim>\<open>BUF_LIM_SIZE\<close> samples. The scratch buffer \<^verbatim>\<open>vTemp\<close> is not initialised in
  the source; only the \<open>to_do\<close> samples that \<^verbatim>\<open>process\<close> has written are read, so
  the model starts it from zeros.
\<close>

function process_add_loop ::
  "SpectralTilt \<Rightarrow> real list \<Rightarrow> real list \<Rightarrow> nat \<Rightarrow> nat \<Rightarrow> SpectralTilt \<times> real list" where
  "process_add_loop s dst src count offset =
     (if offset < count then
        (let to_do = min (count - offset) BUF_LIM_SIZE;
             (fb, vTemp) = FilterBank_process (sFilter s) (replicate BUF_LIM_SIZE 0)
                             (drop offset src) to_do;
             dst' = take offset dst @ dsp_add2 (drop offset dst) vTemp to_do
         in process_add_loop (s\<lparr> sFilter := fb \<rparr>) dst' src count (offset + to_do))
      else (s, dst))"
  by pat_completeness auto
termination
  by (relation "measure (\<lambda>(s, dst, src, count, offset). count - offset)")
     (auto simp: BUF_LIM_SIZE_def)

declare process_add_loop.simps [simp del]

text \<open>\<^verbatim>\<open>SpectralTilt::process_add\<close> (lines 257-285).\<close>

definition process_add ::
  "SpectralTilt \<Rightarrow> real list \<Rightarrow> real list option \<Rightarrow> nat \<Rightarrow> SpectralTilt \<times> real list" where
  "process_add s dst src count =
     (case src of
        None \<Rightarrow> (s, dst)
      | Some src' \<Rightarrow>
          if bBypass s then (s, dsp_add2 dst src' count)
          else process_add_loop s dst src' count 0)"

text \<open>Lines 305-314: the same loop in \<^verbatim>\<open>process_mul\<close>.\<close>

function process_mul_loop ::
  "SpectralTilt \<Rightarrow> real list \<Rightarrow> real list \<Rightarrow> nat \<Rightarrow> nat \<Rightarrow> SpectralTilt \<times> real list" where
  "process_mul_loop s dst src count offset =
     (if offset < count then
        (let to_do = min (count - offset) BUF_LIM_SIZE;
             (fb, vTemp) = FilterBank_process (sFilter s) (replicate BUF_LIM_SIZE 0)
                             (drop offset src) to_do;
             dst' = take offset dst @ dsp_mul2 (drop offset dst) vTemp to_do
         in process_mul_loop (s\<lparr> sFilter := fb \<rparr>) dst' src count (offset + to_do))
      else (s, dst))"
  by pat_completeness auto
termination
  by (relation "measure (\<lambda>(s, dst, src, count, offset). count - offset)")
     (auto simp: BUF_LIM_SIZE_def)

declare process_mul_loop.simps [simp del]

text \<open>\<^verbatim>\<open>SpectralTilt::process_mul\<close> (lines 287-315).\<close>

definition process_mul ::
  "SpectralTilt \<Rightarrow> real list \<Rightarrow> real list option \<Rightarrow> nat \<Rightarrow> SpectralTilt \<times> real list" where
  "process_mul s dst src count =
     (case src of
        None \<Rightarrow> (s, dsp_fill_zero dst count)
      | Some src' \<Rightarrow>
          if bBypass s then (s, dsp_mul2 dst src' count)
          else process_mul_loop s dst src' count 0)"

text \<open>\<^verbatim>\<open>SpectralTilt::process_overwrite\<close> (lines 317-325).\<close>

definition process_overwrite ::
  "SpectralTilt \<Rightarrow> real list \<Rightarrow> real list option \<Rightarrow> nat \<Rightarrow> SpectralTilt \<times> real list" where
  "process_overwrite s dst src count =
     (case src of
        None \<Rightarrow> (s, dsp_fill_zero dst count)
      | Some src' \<Rightarrow>
          if bBypass s then (s, dsp_copy dst src' count)
          else (let (fb, dst') = FilterBank_process (sFilter s) dst src' count
                in (s\<lparr> sFilter := fb \<rparr>, dst')))"

subsection \<open>The configuration setters and the reachable states\<close>

text \<open>
  The setters are defined in the class declaration, which is not part of the source file.
  The spec lists setters for the order, the slope value and unit, the normalization mode,
  the two frequency bounds and the sample rate, and asks every mutator to mark the
  configuration as pending.
\<close>

text \<open>Modelled from the spec: the setter of the requested order.\<close>

definition set_order :: "64 word \<Rightarrow> SpectralTilt \<Rightarrow> SpectralTilt" where
  "set_order order s = s\<lparr> nOrder := order, bSync := True \<rparr>"

text \<open>Modelled from the spec: the setter of the slope value and its unit.\<close>

definition set_slope :: "real \<Rightarrow> stlt_slope_unit_t \<Rightarrow> SpectralTilt \<Rightarrow> SpectralTilt" where
  "set_slope slope u s = s\<lparr> enSlopeUnit := u, fSlopeVal := slope, bSync := True \<rparr>"

text \<open>Modelled from the spec: the setter of the normalization mode.\<close>

definition set_norm :: "stlt_norm_t \<Rightarrow> SpectralTilt \<Rightarrow> SpectralTilt" where
  "set_norm nm s = s\<lparr> enNorm := nm, bSync := True \<rparr>"

text \<open>Modelled from the spec: the setter of the lower frequency bound.\<close>

definition set_lower_frequency :: "real \<Rightarrow> SpectralTilt \<Rightarrow> SpectralTilt" where
  "set_lower_frequency f s = s\<lparr> fLowerFrequency := f, bSync := True \<rparr>"

text \<open>Modelled from the spec: the setter of the upper frequency bound.\<close>

definition set_upper_frequency :: "real \<Rightarrow> SpectralTilt \<Rightarrow> SpectralTilt" where
  "set_upper_frequency f s = s\<lparr> fUpperFrequency := f, bSync := True \<rparr>"

text \<open>Modelled from the spec: the setter of the sample rate.\<close>

definition set_sample_rate :: "64 word \<Rightarrow> SpectralTilt \<Rightarrow> SpectralTilt" where
  "set_sample_rate sr s = s\<lparr> nSampleRate := sr, bSync := True \<rparr>"

text \<open>
  The states an object can be in: it is constructed, then configured, synchronized and
  used for processing in any order.
\<close>

inductive reachable :: "SpectralTilt \<Rightarrow> bool" where
  r_construct: "reachable construct"
| r_set_order: "reachable s \<Longrightarrow> reachable (set_order order s)"
| r_set_slope: "reachable s \<Longrightarrow> reachable (set_slope slope u s)"
| r_set_norm: "reachable s \<Longrightarrow> reachable (set_norm nm s)"
| r_set_lower: "reachable s \<Longrightarrow> reachable (set_lower_frequency f s)"
| r_set_upper: "reachable s \<Longrightarrow> reachable (set_upper_frequency f s)"
| r_set_rate: "reachable s \<Longrightarrow> reachable (set_sample_rate sr s)"
| r_update: "reachable s \<Longrightarrow> reachable (update_settings s)"
| r_add: "reachable s \<Longrightarrow> reachable (fst (process_add s dst src count))"
| r_mul: "reachable s \<Longrightarrow> reachable (fst (process_mul s dst src count))"
| r_overwrite: "reachable s \<Longrightarrow> reachable (fst (process_overwrite s dst src count))"

subsection \<open>Notions of the specification\<close>

text \<open>
  The slope converter as the specification words it: a pure function of the slope value
  and its unit, with the identity for every unit other than dB per octave and dB per
  decade.
\<close>

definition slope_converter :: "real \<Rightarrow> stlt_slope_unit_t \<Rightarrow> real" where
  "slope_converter slopeValue slopeUnit =
     (if slopeUnit = STLT_SLOPE_UNIT_DB_PER_OCTAVE
        then slopeValue * 0.16609640419483184814453125
      else if slopeUnit = STLT_SLOPE_UNIT_DB_PER_DECADE
        then slopeValue * 0.05
      else slopeValue)"

text \<open>
  The frequency response of a first-order analog section at the complex frequency \<open>z\<close>:
  H(z) = (b1 z + b0) / (a1 z + a0).
\<close>

definition analog_response :: "bilinear_spec_t \<Rightarrow> complex \<Rightarrow> complex" where
  "analog_response spec z =
     (of_real (b1 spec) * z + of_real (b0 spec)) / (of_real (a1 spec) * z + of_real (a0 spec))"

text \<open>
  A caller that partitions a stream into consecutive calls of the overwriting entry point:
  the call for a chunk of \<open>n\<close> samples receives the buffers advanced past the samples
  of the earlier chunks, and the object as the earlier calls left it.
\<close>

fun overwrite_chunks ::
  "SpectralTilt \<Rightarrow> real list \<Rightarrow> real list \<Rightarrow> nat list \<Rightarrow> SpectralTilt \<times> real list" where
  "overwrite_chunks s dst src [] = (s, dst)"
| "overwrite_chunks s dst src (n # ns) =
     (let (s1, dst1) = process_overwrite s dst (Some src) n;
          (s2, dst2) = overwrite_chunks s1 (drop n dst1) (drop n src) ns
      in (s2, take n dst1 @ dst2))"

text \<open>The state on which the first counterexample is evaluated.\<close>

definition band_example :: SpectralTilt where
  "band_example = construct\<lparr> nSampleRate := 48000, fLowerFrequency := 15000 \<rparr>"

section \<open>Properties\<close>

subsection \<open>The stages of \<^verbatim>\<open>update_settings\<close>, field by field\<close>

lemma force_order_simps:
  "nOrder (force_order s) = min (if nOrder s mod 2 = 0 then nOrder s else nOrder s + 1) MAX_ORDER"
  "enSlopeUnit (force_order s) = enSlopeUnit s"
  "enNorm (force_order s) = enNorm s"
  "fSlopeVal (force_order s) = fSlopeVal s"
  "fSlopeNepNep (force_order s) = fSlopeNepNep s"
  "fLowerFrequency (force_order s) = fLowerFrequency s"
  "fUpperFrequency (force_order s) = fUpperFrequency s"
  "nSampleRate (force_order s) = nSampleRate s"
  "sFilter (force_order s) = sFilter s"
  "bBypass (force_order s) = bBypass s"
  "bSync (force_order s) = bSync s"
  by (simp_all add: force_order_def Let_def)

lemma convert_slope_simps:
  "nOrder (convert_slope s) = nOrder s"
  "enSlopeUnit (convert_slope s) = enSlopeUnit s"
  "enNorm (convert_slope s) = enNorm s"
  "fSlopeVal (convert_slope s) = fSlopeVal s"
  "fSlopeNepNep (convert_slope s) = slope_converter (fSlopeVal s) (enSlopeUnit s)"
  "fLowerFrequency (convert_slope s) = fLowerFrequency s"
  "fUpperFrequency (convert_slope s) = fUpperFrequency s"
  "nSampleRate (convert_slope s) = nSampleRate s"
  "sFilter (convert_slope s) = sFilter s"
  "bBypass (convert_slope s) = bBypass s"
  "bSync (convert_slope s) = bSync s"
  by (simp_all add: convert_slope_def slope_converter_def split: stlt_slope_unit_t.split)

lemma resolve_norm_simps:
  "nOrder (resolve_norm s) = nOrder s"
  "enSlopeUnit (resolve_norm s) = enSlopeUnit s"
  "enNorm (resolve_norm s) =
     (if enNorm s = STLT_NORM_AUTO
      then (if fSlopeNepNep s \<le> 0 then STLT_NORM_AT_DC else STLT_NORM_AT_NYQUIST)
      else enNorm s)"
  "fSlopeVal (resolve_norm s) = fSlopeVal s"
  "fSlopeNepNep (resolve_norm s) = fSlopeNepNep s"
  "fLowerFrequency (resolve_norm s) = fLowerFrequency s"
  "fUpperFrequency (resolve_norm s) = fUpperFrequency s"
  "nSampleRate (resolve_norm s) = nSampleRate s"
  "sFilter (resolve_norm s) = sFilter s"
  "bBypass (resolve_norm s) = bBypass s"
  "bSync (resolve_norm s) = bSync s"
  by (simp_all add: resolve_norm_def)

lemma validate_band_simps:
  "nOrder (validate_band s) = nOrder s"
  "enSlopeUnit (validate_band s) = enSlopeUnit s"
  "enNorm (validate_band s) = enNorm s"
  "fSlopeVal (validate_band s) = fSlopeVal s"
  "fSlopeNepNep (validate_band s) = fSlopeNepNep s"
  "nSampleRate (validate_band s) = nSampleRate s"
  "sFilter (validate_band s) = sFilter s"
  "bBypass (validate_band s) = bBypass s"
  "bSync (validate_band s) = bSync s"
  by (simp_all add: validate_band_def Let_def)

lemma validate_band_lower:
  "fLowerFrequency (validate_band s) =
     (if (if 0.5 * fs s \<le> fUpperFrequency s then DFL_UPPER_FREQUENCY else fUpperFrequency s)
          \<le> (if 0.5 * fs s \<le> fLowerFrequency s then DFL_LOWER_FREQUENCY else fLowerFrequency s)
      then DFL_LOWER_FREQUENCY
      else (if 0.5 * fs s \<le> fLowerFrequency s then DFL_LOWER_FREQUENCY else fLowerFrequency s))"
  by (simp add: validate_band_def Let_def fs_def)

lemma validate_band_upper:
  "fUpperFrequency (validate_band s) =
     (if (if 0.5 * fs s \<le> fUpperFrequency s then DFL_UPPER_FREQUENCY else fUpperFrequency s)
          \<le> (if 0.5 * fs s \<le> fLowerFrequency s then DFL_LOWER_FREQUENCY else fLowerFrequency s)
      then DFL_UPPER_FREQUENCY
      else (if 0.5 * fs s \<le> fUpperFrequency s then DFL_UPPER_FREQUENCY else fUpperFrequency s))"
  by (simp add: validate_band_def Let_def fs_def)

lemmas stage_simps =
  force_order_simps(2-11) convert_slope_simps resolve_norm_simps validate_band_simps

lemma fs_stage:
  "fs (force_order s) = fs s" "fs (convert_slope s) = fs s"
  "fs (resolve_norm s) = fs s" "fs (validate_band s) = fs s"
  by (simp_all add: fs_def stage_simps)

lemma update_settings_config:
  "enSlopeUnit (update_settings s) = enSlopeUnit s"
  "fSlopeVal (update_settings s) = fSlopeVal s"
  "nSampleRate (update_settings s) = nSampleRate s"
  "bSync (update_settings s) = bSync s"
  by (simp_all add: update_settings_def Let_def stage_simps split: prod.split)

lemma update_settings_derived:
  assumes "bSync s"
  shows "nOrder (update_settings s) = nOrder (force_order s)"
    and "fSlopeNepNep (update_settings s) = slope_converter (fSlopeVal s) (enSlopeUnit s)"
    and "enNorm (update_settings s) =
           (if enNorm s = STLT_NORM_AUTO
            then (if slope_converter (fSlopeVal s) (enSlopeUnit s) \<le> 0
                  then STLT_NORM_AT_DC else STLT_NORM_AT_NYQUIST)
            else enNorm s)"
    and "fLowerFrequency (update_settings s) = fLowerFrequency (validate_band s)"
    and "fUpperFrequency (update_settings s) = fUpperFrequency (validate_band s)"
    and "bBypass (update_settings s) =
           (enSlopeUnit s = STLT_SLOPE_UNIT_NONE \<or>
            slope_converter (fSlopeVal s) (enSlopeUnit s) = 0)"
  using assms
  by (simp_all add: update_settings_def Let_def stage_simps validate_band_lower
        validate_band_upper fs_stage split: prod.split)

subsection \<open>The effective order\<close>

lemma even_unat_word: "even (unat (w :: 64 word)) \<longleftrightarrow> even w"
proof -
  have "even (of_nat (unat w) :: 64 word) \<longleftrightarrow> even (unat w)"
    by (rule even_of_nat)
  then show ?thesis by simp
qed

lemma mod2_unat_word: "(w :: 64 word) mod 2 = 0 \<longleftrightarrow> unat w mod 2 = 0"
  using even_unat_word [of w] unfolding even_iff_mod_2_eq_zero by simp

lemma odd_word_succ: "(w :: 64 word) mod 2 \<noteq> 0 \<Longrightarrow> (w + 1) mod 2 = 0"
proof -
  assume "w mod 2 \<noteq> 0"
  then have "odd w" by (simp add: even_iff_mod_2_eq_zero)
  then have "even (w + 1)" by simp
  then show ?thesis by (simp only: even_iff_mod_2_eq_zero)
qed

lemma force_order_mod2: "nOrder (force_order s) mod 2 = 0"
  using odd_word_succ [of "nOrder s"]
  by (auto simp add: force_order_simps MAX_ORDER_def min_def)

lemma force_order_even: "even (unat (nOrder (force_order s)))"
  using force_order_mod2 [of s] by (simp add: mod2_unat_word even_iff_mod_2_eq_zero)

lemma force_order_le: "unat (nOrder (force_order s)) \<le> 100"
  by (simp add: force_order_simps MAX_ORDER_def min_def word_le_nat_alt)

lemma force_order_round:
  assumes "unat (nOrder s) < 2 ^ 64 - 1"
  shows "unat (nOrder (force_order s)) = min (unat (nOrder s) + unat (nOrder s) mod 2) 100"
proof -
  have succ: "unat (nOrder s + 1) = unat (nOrder s) + 1"
    using assms by (simp add: unat_word_ariths)
  have par: "nOrder s mod 2 = 0 \<longleftrightarrow> even (unat (nOrder s))"
    by (simp add: mod2_unat_word even_iff_mod_2_eq_zero)
  show ?thesis
  proof (cases "even (unat (nOrder s))")
    case True
    then show ?thesis
      using par by (auto simp add: force_order_simps MAX_ORDER_def min_def word_le_nat_alt)
  next
    case False
    then have "unat (nOrder s) mod 2 = 1" by presburger
    then show ?thesis
      using par False succ
      by (auto simp add: force_order_simps MAX_ORDER_def min_def word_le_nat_alt)
  qed
qed

lemma force_order_idem: "nOrder (force_order (force_order s)) = nOrder (force_order s)"
  using force_order_mod2 [of s]
  by (simp add: force_order_simps(1) [of "force_order s"]) (simp add: force_order_simps)

subsection \<open>The assembly loop\<close>

lemma evens_step_even:
  assumes "n < order" "n mod 2 = 0"
  shows "(order + 1) div 2 - (n + 1) div 2 = Suc ((order + 1) div 2 - ((n + 1) + 1) div (2::nat))"
proof -
  from assms(2) obtain j where j: "n = 2 * j"
    by (auto elim: evenE simp: even_iff_mod_2_eq_zero)
  have a: "(n + 1) div 2 = j" using j by simp
  have b: "((n + 1) + 1) div 2 = j + 1" using j by simp
  have "2 * j + 1 \<le> order" using assms(1) j by simp
  then have "j + 1 \<le> (order + 1) div 2" by linarith
  then show ?thesis unfolding a b by linarith
qed

lemma evens_step_odd:
  "n mod 2 \<noteq> 0 \<Longrightarrow> ((n + 1) + 1) div 2 = (n + 1) div (2::nat)"
  by presburger

lemma evens_below:
  "even order \<Longrightarrow> (order + 1) div 2 - (0 + 1) div 2 = order div (2::nat)"
  by presburger

lemma assemble_loop_exit:
  "\<not> n < order \<Longrightarrow> assemble_loop s r c_fn order n negZero negPole fb = (fb, False)"
  by (subst assemble_loop.simps) simp

lemma assemble_loop_odd:
  "n < order \<Longrightarrow> n mod 2 \<noteq> 0 \<Longrightarrow>
   assemble_loop s r c_fn order n negZero negPole fb =
   assemble_loop s r c_fn order (n + 1) negZero negPole fb"
  by (subst assemble_loop.simps) simp

lemma assemble_loop_full:
  "n < order \<Longrightarrow> n mod 2 = 0 \<Longrightarrow> \<not> length (vChains fb) < nMaxItems fb \<Longrightarrow>
   assemble_loop s r c_fn order n negZero negPole fb = (fb, True)"
  by (subst assemble_loop.simps) (simp add: FilterBank_add_chain_def Let_def)

lemma assemble_loop_room:
  "n < order \<Longrightarrow> n mod 2 = 0 \<Longrightarrow> length (vChains fb) < nMaxItems fb \<Longrightarrow>
   \<exists>bq. assemble_loop s r c_fn order n negZero negPole fb =
         assemble_loop s r c_fn order (n + 1) (negZero * r * r) (negPole * r * r)
           (fb\<lparr> vChains := vChains fb @ [(bq, (0, 0))] \<rparr>)"
  by (subst assemble_loop.simps) (simp add: FilterBank_add_chain_def Let_def, blast)

text \<open>
  With room for one section per even \<open>n\<close> still to come, the loop runs to its end and
  appends exactly that many sections.
\<close>

lemma assemble_loop_complete:
  "k = (order + 1) div 2 - (n + 1) div 2 \<Longrightarrow>
   length (vChains fb) + k \<le> nMaxItems fb \<Longrightarrow>
   \<exists>secs. length secs = k \<and>
     assemble_loop s r c_fn order n negZero negPole fb =
       (fb\<lparr> vChains := vChains fb @ secs \<rparr>, False)"
proof (induction "order - n" arbitrary: n k negZero negPole fb)
  case 0
  then have "\<not> n < order" and "k = 0" by simp_all
  then show ?case by (simp add: assemble_loop_exit)
next
  case (Suc m)
  then have lt: "n < order" and m: "m = order - (n + 1)" by simp_all
  show ?case
  proof (cases "n mod 2 = 0")
    case False
    have "k = (order + 1) div 2 - ((n + 1) + 1) div 2"
      unfolding Suc.prems(1) by (simp only: evens_step_odd [OF False])
    from Suc.hyps(1) [OF m this Suc.prems(2)] show ?thesis
      using lt False by (simp add: assemble_loop_odd)
  next
    case True
    define k' where "k' = (order + 1) div 2 - ((n + 1) + 1) div 2"
    have k: "k = Suc k'"
      unfolding k'_def Suc.prems(1) by (rule evens_step_even [OF lt True])
    with Suc.prems(2) have room: "length (vChains fb) < nMaxItems fb" by simp
    from assemble_loop_room [OF lt True room, of s r c_fn negZero negPole]
    obtain bq where step:
      "assemble_loop s r c_fn order n negZero negPole fb =
         assemble_loop s r c_fn order (n + 1) (negZero * r * r) (negPole * r * r)
           (fb\<lparr> vChains := vChains fb @ [(bq, (0, 0))] \<rparr>)" by blast
    let ?fb = "fb\<lparr> vChains := vChains fb @ [(bq, (0, 0))] \<rparr>"
    have "length (vChains ?fb) + k' \<le> nMaxItems ?fb"
      using Suc.prems(2) k by simp
    from Suc.hyps(1) [OF m k'_def this, of "negZero * r * r" "negPole * r * r"]
    obtain secs where "length secs = k'"
      and "assemble_loop s r c_fn order (n + 1) (negZero * r * r) (negPole * r * r) ?fb =
             (?fb\<lparr> vChains := vChains ?fb @ secs \<rparr>, False)" by blast
    then have "length ((bq, (0, 0)) # secs) = k \<and>
       assemble_loop s r c_fn order n negZero negPole fb =
         (fb\<lparr> vChains := vChains fb @ ((bq, (0, 0)) # secs) \<rparr>, False)"
      using step k by simp
    then show ?thesis by blast
  qed
qed

lemma assemble_chain_complete:
  assumes "even (unat (nOrder s))" and "unat (nOrder s) div 2 \<le> nMaxItems (sFilter s)"
  shows "\<exists>secs. length secs = unat (nOrder s) div 2 \<and>
           assemble_chain s =
             (\<lparr> nMaxItems = nMaxItems (sFilter s), vChains = secs, bBuilding = True \<rparr>, False)"
proof -
  let ?fb = "FilterBank_begin (sFilter s)"
  have k: "unat (nOrder s) div 2 = (unat (nOrder s) + 1) div 2 - (0 + 1) div 2"
    using evens_below [OF assms(1)] by simp
  have cap: "length (vChains ?fb) + unat (nOrder s) div 2 \<le> nMaxItems ?fb"
    using assms(2) by (simp add: FilterBank_begin_def)
  have "\<exists>secs. length secs = unat (nOrder s) div 2 \<and>
          assemble_chain s = (?fb\<lparr> vChains := vChains ?fb @ secs \<rparr>, False)"
    unfolding assemble_chain_def Let_def by (rule assemble_loop_complete [OF k cap])
  then obtain secs where len: "length secs = unat (nOrder s) div 2"
    and res: "assemble_chain s = (?fb\<lparr> vChains := vChains ?fb @ secs \<rparr>, False)"
    by blast
  have "?fb\<lparr> vChains := vChains ?fb @ secs \<rparr> =
          \<lparr> nMaxItems = nMaxItems (sFilter s), vChains = secs, bBuilding = True \<rparr>"
    by (simp add: FilterBank_begin_def)
  with len res show ?thesis by simp
qed

text \<open>
  A synchronization that does not end in bypass, on a chain with room for 50 sections,
  never sees a null section pointer, leaves exactly half the effective order in sections
  and closes the rebuild transaction.
\<close>

lemma update_settings_chain:
  assumes "bSync s" and "\<not> bBypass (update_settings s)"
    and "50 \<le> nMaxItems (sFilter s)"
  shows "\<exists>secs. length secs = unat (nOrder (update_settings s)) div 2 \<and>
           snd (assemble_chain
                  ((validate_band (resolve_norm (convert_slope (force_order s))))
                     \<lparr> bBypass := False \<rparr>)) = False \<and>
           sFilter (update_settings s) =
             \<lparr> nMaxItems = nMaxItems (sFilter s), vChains = secs, bBuilding = False \<rparr>"
proof -
  let ?s2 = "(validate_band (resolve_norm (convert_slope (force_order s))))\<lparr> bBypass := False \<rparr>"
  have ord: "nOrder ?s2 = nOrder (force_order s)" by (simp add: stage_simps)
  have ev: "even (unat (nOrder ?s2))" unfolding ord by (rule force_order_even)
  have "unat (nOrder ?s2) div 2 \<le> 50"
    unfolding ord using force_order_le [of s] by simp
  then have cap: "unat (nOrder ?s2) div 2 \<le> nMaxItems (sFilter ?s2)"
    using assms(3) by (simp add: stage_simps)
  from assemble_chain_complete [OF ev cap] obtain secs
    where len: "length secs = unat (nOrder ?s2) div 2"
      and res: "assemble_chain ?s2 =
        (\<lparr> nMaxItems = nMaxItems (sFilter ?s2), vChains = secs, bBuilding = True \<rparr>, False)"
    by blast
  have nb: "\<not> (enSlopeUnit s = STLT_SLOPE_UNIT_NONE \<or>
            slope_converter (fSlopeVal s) (enSlopeUnit s) = 0)"
    using assms(2) update_settings_derived(6) [OF assms(1)] by simp
  have "sFilter (update_settings s) =
          \<lparr> nMaxItems = nMaxItems (sFilter s), vChains = secs, bBuilding = False \<rparr>"
    using assms(1) nb res
    by (simp add: update_settings_def Let_def stage_simps FilterBank_end_def)
  moreover have "length secs = unat (nOrder (update_settings s)) div 2"
    using len ord update_settings_derived(1) [OF assms(1)] by simp
  ultimately show ?thesis using res by auto
qed

subsection \<open>The freshly constructed object\<close>

lemma construct_simps:
  "bSync construct" "nOrder construct = 1" "enSlopeUnit construct = STLT_SLOPE_UNIT_NEPER_PER_NEPER"
  "fSlopeVal construct = 0.5" "nMaxItems (sFilter construct) = 100" "enNorm construct = STLT_NORM_AUTO"
  "fLowerFrequency construct = 0.1" "fUpperFrequency construct = 20000" "nSampleRate construct = - 1"
  by (simp_all add: construct_def FilterBank_init_def MAX_ORDER_def DFL_LOWER_FREQUENCY_def DFL_UPPER_FREQUENCY_def)

section \<open>The claims\<close>

text \<open>
  The source guards the whole of \<^verbatim>\<open>update_settings\<close> by \<^verbatim>\<open>bSync\<close>. The
  constructor sets the flag, \<^verbatim>\<open>update_settings\<close> leaves it set and nothing in the
  source file clears it, so the statements about a synchronization assume it.
\<close>

text \<open>
  What holds of the effective order after a synchronization: it is even and at most 100
  for every requested order; below \<open>2 ^ 64 - 1\<close> an odd request is rounded up by one
  before the limit applies; a request of 101 gives 100 and a request of 3 gives 4; when
  the synchronization does not end in bypass, on the chain capacity the constructor
  sets, the chain holds effective order / 2 sections.
\<close>

lemma order_after_update:
  assumes "bSync s"
  shows "even (unat (nOrder (update_settings s))) \<and>
         unat (nOrder (update_settings s)) \<le> 100 \<and>
         (unat (nOrder s) < 2 ^ 64 - 1 \<longrightarrow>
            unat (nOrder (update_settings s)) = min (unat (nOrder s) + unat (nOrder s) mod 2) 100) \<and>
         (nOrder s = 101 \<longrightarrow> nOrder (update_settings s) = 100) \<and>
         (nOrder s = 3 \<longrightarrow> nOrder (update_settings s) = 4) \<and>
         (\<not> bBypass (update_settings s) \<and> nMaxItems (sFilter s) = unat MAX_ORDER \<longrightarrow>
            length (vChains (sFilter (update_settings s))) =
              unat (nOrder (update_settings s)) div 2)"
proof -
  note ord = update_settings_derived(1) [OF assms]
  have "even (unat (nOrder (update_settings s)))"
    unfolding ord by (rule force_order_even)
  moreover have "unat (nOrder (update_settings s)) \<le> 100"
    unfolding ord by (rule force_order_le)
  moreover have "unat (nOrder s) < 2 ^ 64 - 1 \<longrightarrow>
      unat (nOrder (update_settings s)) = min (unat (nOrder s) + unat (nOrder s) mod 2) 100"
    unfolding ord using force_order_round [of s] by blast
  moreover have "nOrder s = 101 \<longrightarrow> nOrder (update_settings s) = 100"
    unfolding ord by (simp add: force_order_simps MAX_ORDER_def)
  moreover have "nOrder s = 3 \<longrightarrow> nOrder (update_settings s) = 4"
    unfolding ord by (simp add: force_order_simps MAX_ORDER_def)
  moreover have "\<not> bBypass (update_settings s) \<and> nMaxItems (sFilter s) = unat MAX_ORDER \<longrightarrow>
            length (vChains (sFilter (update_settings s))) =
              unat (nOrder (update_settings s)) div 2"
  proof
    assume a: "\<not> bBypass (update_settings s) \<and> nMaxItems (sFilter s) = unat MAX_ORDER"
    then have "50 \<le> nMaxItems (sFilter s)" by (simp add: MAX_ORDER_def)
    from update_settings_chain [OF assms _ this] a
    show "length (vChains (sFilter (update_settings s))) =
              unat (nOrder (update_settings s)) div 2" by auto
  qed
  ultimately show ?thesis by blast
qed

lemma order_after_update_examples:
  "nOrder (update_settings (construct\<lparr> nOrder := 101 \<rparr>)) = 100 \<and>
   nOrder (update_settings (construct\<lparr> nOrder := 3 \<rparr>)) = 4 \<and>
   unat (nOrder (update_settings (construct\<lparr> nOrder := 7 \<rparr>))) = 8 \<and>
   length (vChains (sFilter (update_settings (construct\<lparr> nOrder := 3 \<rparr>)))) = 2"
proof -
  have nb: "\<not> bBypass (update_settings (construct\<lparr> nOrder := 3 \<rparr>))"
    by (simp add: update_settings_derived(6) construct_simps slope_converter_def)
  have cap: "nMaxItems (sFilter (construct\<lparr> nOrder := 3 \<rparr>)) = unat MAX_ORDER"
    by (simp add: construct_simps MAX_ORDER_def)
  show ?thesis
    using nb cap
      order_after_update [of "construct\<lparr> nOrder := 101 \<rparr>"]
      order_after_update [of "construct\<lparr> nOrder := 3 \<rparr>"]
      order_after_update [of "construct\<lparr> nOrder := 7 \<rparr>"]
    by (simp add: construct_simps)
qed

text \<open>
  C5. An odd requested order is to be rounded up by one and the result limited to 100.
  The source adds one before it limits (lines 136-137), in \<^verbatim>\<open>size_t\<close> arithmetic:
  for the odd order \<open>2 ^ 64 - 1\<close>, which the setter accepts, the sum wraps to 0 and
  the limit leaves it, so the effective order is 0, where rounding up by one and
  limiting gives 100. The synchronization does not end in bypass.
\<close>

theorem effective_order_wraps_at_max:
  "unat (nOrder (set_order (- 1) construct)) = 2 ^ 64 - 1 \<and>
   odd (unat (nOrder (set_order (- 1) construct))) \<and>
   bSync (set_order (- 1) construct) \<and>
   \<not> bBypass (update_settings (set_order (- 1) construct)) \<and>
   nOrder (update_settings (set_order (- 1) construct)) = 0 \<and>
   min (unat (nOrder (set_order (- 1) construct)) + 1) 100 = (100 :: nat)"
proof -
  let ?s = "set_order (- 1) construct"
  have sync: "bSync ?s" by (simp add: set_order_def)
  have ord: "nOrder ?s = - 1" by (simp add: set_order_def)
  have u: "unat (nOrder ?s) = 2 ^ 64 - 1"
    unfolding ord by (simp add: unsigned_minus_1_eq_mask mask_eq_exp_minus_1)
  have odd: "odd (unat (nOrder ?s))" unfolding u by simp
  have m: "(- 1 :: 64 word) mod 2 \<noteq> 0"
    using odd unfolding ord by (simp add: mod2_unat_word even_iff_mod_2_eq_zero)
  have eff: "nOrder (update_settings ?s) = 0"
    unfolding update_settings_derived(1) [OF sync]
    using m by (simp add: force_order_simps(1) ord MAX_ORDER_def)
  have nb: "\<not> bBypass (update_settings ?s)"
    unfolding update_settings_derived(6) [OF sync]
    by (simp add: set_order_def construct_simps slope_converter_def)
  show ?thesis using u odd sync nb eff by simp
qed

text \<open>
  C8. The slope conversion is a total function of the slope value and the unit: the
  canonical slope after synchronization is the value times 0.16609640419483184814453125
  for dB per octave, the value times 0.05 for dB per decade, the value itself for Neper
  per Neper, and the value itself for every other unit. It agrees with the slope converter
  of the specification.
\<close>

theorem slope_unit_conversion:
  assumes "bSync s"
  shows "fSlopeNepNep (update_settings s) = slope_converter (fSlopeVal s) (enSlopeUnit s) \<and>
         (enSlopeUnit s = STLT_SLOPE_UNIT_DB_PER_OCTAVE \<longrightarrow>
            fSlopeNepNep (update_settings s) = fSlopeVal s * 0.16609640419483184814453125) \<and>
         (enSlopeUnit s = STLT_SLOPE_UNIT_DB_PER_DECADE \<longrightarrow>
            fSlopeNepNep (update_settings s) = fSlopeVal s * 0.05) \<and>
         (enSlopeUnit s = STLT_SLOPE_UNIT_NEPER_PER_NEPER \<longrightarrow>
            fSlopeNepNep (update_settings s) = fSlopeVal s) \<and>
         (enSlopeUnit s \<noteq> STLT_SLOPE_UNIT_DB_PER_OCTAVE \<and>
          enSlopeUnit s \<noteq> STLT_SLOPE_UNIT_DB_PER_DECADE \<longrightarrow>
            fSlopeNepNep (update_settings s) = fSlopeVal s)"
  by (simp add: update_settings_derived(2) [OF assms] slope_converter_def)

theorem slope_unit_conversion_witness:
  "fSlopeNepNep (update_settings (set_slope 1 STLT_SLOPE_UNIT_DB_PER_OCTAVE construct)) =
     0.16609640419483184814453125 \<and>
   fSlopeNepNep (update_settings (set_slope 1 STLT_SLOPE_UNIT_DB_PER_DECADE construct)) = 0.05 \<and>
   fSlopeNepNep (update_settings (set_slope 3 STLT_SLOPE_UNIT_NEPER_PER_NEPER construct)) = 3 \<and>
   fSlopeNepNep (update_settings (set_slope 3 STLT_SLOPE_UNIT_NONE construct)) = 3"
  using slope_unit_conversion [of "set_slope 1 STLT_SLOPE_UNIT_DB_PER_OCTAVE construct"]
    slope_unit_conversion [of "set_slope 1 STLT_SLOPE_UNIT_DB_PER_DECADE construct"]
    slope_unit_conversion [of "set_slope 3 STLT_SLOPE_UNIT_NEPER_PER_NEPER construct"]
    slope_unit_conversion [of "set_slope 3 STLT_SLOPE_UNIT_NONE construct"]
  by (simp add: set_slope_def)

text \<open>
  C7. A stored normalization mode \<^verbatim>\<open>AUTO\<close> is replaced, at synchronization, by
  \<^verbatim>\<open>AT_DC\<close> when the canonical slope is at most 0 and by \<^verbatim>\<open>AT_NYQUIST\<close>
  otherwise; any other stored mode is kept; after a synchronization the mode is never
  \<^verbatim>\<open>AUTO\<close>, and a further synchronization, of the same object or of any later state
  \<open>t\<close> that still stores the resolved mode, keeps it.
\<close>

theorem auto_norm_resolution:
  assumes "bSync s"
  shows "(enNorm s = STLT_NORM_AUTO \<longrightarrow>
            enNorm (update_settings s) =
              (if fSlopeNepNep (update_settings s) \<le> 0 then STLT_NORM_AT_DC
               else STLT_NORM_AT_NYQUIST)) \<and>
         (enNorm s \<noteq> STLT_NORM_AUTO \<longrightarrow> enNorm (update_settings s) = enNorm s) \<and>
         enNorm (update_settings s) \<noteq> STLT_NORM_AUTO \<and>
         enNorm (update_settings (update_settings s)) = enNorm (update_settings s) \<and>
         (enNorm t = enNorm (update_settings s) \<longrightarrow>
            enNorm (update_settings t) = enNorm (update_settings s))"
proof -
  note n = update_settings_derived(3) [OF assms]
  note sl = update_settings_derived(2) [OF assms]
  have keep: "enNorm (update_settings u) = enNorm u" if "enNorm u \<noteq> STLT_NORM_AUTO" for u
  proof (cases "bSync u")
    case True
    with that show ?thesis by (simp add: update_settings_derived(3))
  next
    case False
    then show ?thesis by (simp add: update_settings_def)
  qed
  have res: "enNorm (update_settings s) \<noteq> STLT_NORM_AUTO"
    unfolding n by simp
  have "enNorm s = STLT_NORM_AUTO \<longrightarrow>
            enNorm (update_settings s) =
              (if fSlopeNepNep (update_settings s) \<le> 0 then STLT_NORM_AT_DC
               else STLT_NORM_AT_NYQUIST)"
    unfolding n sl by simp
  moreover have "enNorm s \<noteq> STLT_NORM_AUTO \<longrightarrow> enNorm (update_settings s) = enNorm s"
    using keep by blast
  moreover have "enNorm (update_settings (update_settings s)) = enNorm (update_settings s)"
    using keep [OF res] .
  moreover have "enNorm t = enNorm (update_settings s) \<longrightarrow>
            enNorm (update_settings t) = enNorm (update_settings s)"
    using keep [of t] res by auto
  ultimately show ?thesis using res by blast
qed

theorem auto_norm_resolution_witness:
  "enNorm (update_settings construct) = STLT_NORM_AT_NYQUIST \<and>
   enNorm (update_settings (set_slope (- 3) STLT_SLOPE_UNIT_DB_PER_OCTAVE construct)) = STLT_NORM_AT_DC \<and>
   enNorm (update_settings (set_norm STLT_NORM_NONE construct)) = STLT_NORM_NONE \<and>
   enNorm (update_settings (set_slope (- 3) STLT_SLOPE_UNIT_DB_PER_OCTAVE (update_settings construct)))
     = STLT_NORM_AT_NYQUIST"
proof -
  have a: "fSlopeNepNep (update_settings construct) = 0.5"
    by (simp add: update_settings_derived(2) construct_simps slope_converter_def)
  have b: "fSlopeNepNep (update_settings (set_slope (- 3) STLT_SLOPE_UNIT_DB_PER_OCTAVE construct)) \<le> 0"
    by (simp add: update_settings_derived(2) set_slope_def slope_converter_def)
  have c: "enNorm (set_slope (- 3) STLT_SLOPE_UNIT_DB_PER_OCTAVE (update_settings construct)) =
             enNorm (update_settings construct)"
    by (simp add: set_slope_def)
  show ?thesis
    using a b c
      auto_norm_resolution [of construct "set_slope (- 3) STLT_SLOPE_UNIT_DB_PER_OCTAVE (update_settings construct)"]
      auto_norm_resolution [of "set_slope (- 3) STLT_SLOPE_UNIT_DB_PER_OCTAVE construct" construct]
      auto_norm_resolution [of "set_norm STLT_NORM_NONE construct" construct]
    by (simp add: construct_simps set_slope_def set_norm_def)
qed

text \<open>
  C1, as amended. The band is validated against the Nyquist frequency, half the sample
  rate: a lower bound at or above it is reset to 0.1 Hz; an upper bound at or above it
  is reset to 20 kHz; if after these two checks the lower bound is still greater than or
  equal to the upper bound, both are reset.
\<close>

theorem band_validation:
  assumes "bSync s"
  shows "fLowerFrequency (update_settings s) =
           (if (if 0.5 * fs s \<le> fUpperFrequency s then 20000 else fUpperFrequency s)
                \<le> (if 0.5 * fs s \<le> fLowerFrequency s then 0.1 else fLowerFrequency s)
            then 0.1
            else (if 0.5 * fs s \<le> fLowerFrequency s then 0.1 else fLowerFrequency s)) \<and>
         fUpperFrequency (update_settings s) =
           (if (if 0.5 * fs s \<le> fUpperFrequency s then 20000 else fUpperFrequency s)
                \<le> (if 0.5 * fs s \<le> fLowerFrequency s then 0.1 else fLowerFrequency s)
            then 20000
            else (if 0.5 * fs s \<le> fUpperFrequency s then 20000 else fUpperFrequency s))"
  unfolding update_settings_derived(4,5) [OF assms] validate_band_lower validate_band_upper
    DFL_LOWER_FREQUENCY_def DFL_UPPER_FREQUENCY_def
  by simp

theorem band_validation_witness:
  "fLowerFrequency (update_settings (construct\<lparr> nSampleRate := 48000, fLowerFrequency := 30000 \<rparr>)) = 0.1 \<and>
   fUpperFrequency (update_settings (construct\<lparr> nSampleRate := 48000, fUpperFrequency := 24000 \<rparr>)) = 20000 \<and>
   fLowerFrequency (update_settings (construct\<lparr> nSampleRate := 48000, fLowerFrequency := 500, fUpperFrequency := 400 \<rparr>)) = 0.1 \<and>
   fUpperFrequency (update_settings (construct\<lparr> nSampleRate := 48000, fLowerFrequency := 500, fUpperFrequency := 400 \<rparr>)) = 20000 \<and>
   fLowerFrequency (update_settings (construct\<lparr> nSampleRate := 48000, fLowerFrequency := 20 \<rparr>)) = 20"
  using band_validation [of "construct\<lparr> nSampleRate := 48000, fLowerFrequency := 30000 \<rparr>"]
    band_validation [of "construct\<lparr> nSampleRate := 48000, fUpperFrequency := 24000 \<rparr>"]
    band_validation [of "construct\<lparr> nSampleRate := 48000, fLowerFrequency := 500, fUpperFrequency := 400 \<rparr>"]
    band_validation [of "construct\<lparr> nSampleRate := 48000, fLowerFrequency := 20 \<rparr>"]
  by (simp add: construct_simps fs_def)

text \<open>
  C1, as stated, compares with half the Nyquist frequency. At a sample rate of 48 kHz a
  lower bound of 15 kHz is above half the Nyquist frequency (12 kHz) and below the
  Nyquist frequency (24 kHz): the source keeps it.
\<close>

theorem band_nyquist_half_counterexample:
  "bSync band_example \<and>
   fs band_example / 2 / 2 \<le> fLowerFrequency band_example \<and>
   fLowerFrequency (update_settings band_example) = 15000 \<and>
   fLowerFrequency (update_settings band_example) \<noteq> DFL_LOWER_FREQUENCY"
proof -
  have b: "bSync band_example" by (simp add: band_example_def construct_simps)
  have f: "fs band_example = 48000" by (simp add: band_example_def fs_def)
  have l: "fLowerFrequency band_example = 15000" "fUpperFrequency band_example = 20000"
    by (simp_all add: band_example_def construct_simps)
  have "fLowerFrequency (update_settings band_example) = 15000"
    unfolding update_settings_derived(4) [OF b] validate_band_lower f l
      DFL_LOWER_FREQUENCY_def DFL_UPPER_FREQUENCY_def by simp
  then show ?thesis using b f l by (simp add: DFL_LOWER_FREQUENCY_def)
qed

subsection \<open>The vector primitives, elementwise\<close>

lemma dsp_length:
  "count \<le> length dst \<Longrightarrow> length (dsp_fill_zero dst count) = length dst"
  "count \<le> length dst \<Longrightarrow> count \<le> length src \<Longrightarrow> length (dsp_copy dst src count) = length dst"
  "count \<le> length dst \<Longrightarrow> count \<le> length src \<Longrightarrow> length (dsp_add2 dst src count) = length dst"
  "count \<le> length dst \<Longrightarrow> count \<le> length src \<Longrightarrow> length (dsp_mul2 dst src count) = length dst"
  by (simp_all add: dsp_fill_zero_def dsp_copy_def dsp_add2_def dsp_mul2_def)

lemma dsp_nth_below:
  assumes "count \<le> length dst" and "count \<le> length src" and "i < count"
  shows "dsp_fill_zero dst count ! i = 0"
    and "dsp_copy dst src count ! i = src ! i"
    and "dsp_add2 dst src count ! i = dst ! i + src ! i"
    and "dsp_mul2 dst src count ! i = dst ! i * src ! i"
  using assms
  by (simp_all add: dsp_fill_zero_def dsp_copy_def dsp_add2_def dsp_mul2_def nth_append)

lemma dsp_nth_above:
  assumes "count \<le> length dst" and "count \<le> length src" and "count \<le> i" and "i < length dst"
  shows "dsp_fill_zero dst count ! i = dst ! i"
    and "dsp_copy dst src count ! i = dst ! i"
    and "dsp_add2 dst src count ! i = dst ! i"
    and "dsp_mul2 dst src count ! i = dst ! i"
  using assms
  by (simp_all add: dsp_fill_zero_def dsp_copy_def dsp_add2_def dsp_mul2_def nth_append)

text \<open>
  C3. After a synchronization with the slope unit \<^verbatim>\<open>NONE\<close>, whatever the slope
  value, the object is in bypass: for buffers of the same length and a count within
  them, the overwriting entry point copies the source into the destination, the additive
  one adds it elementwise and the multiplicative one multiplies by it elementwise; the
  samples beyond the count and the object, with its filter chain, are left as they were.
\<close>

theorem bypass_identity:
  assumes "bSync s" and "enSlopeUnit s = STLT_SLOPE_UNIT_NONE"
    and "length src = length dst" and "n \<le> length dst"
  shows "bBypass (update_settings s) \<and>
         process_overwrite (update_settings s) dst (Some src) n =
           (update_settings s, take n src @ drop n dst) \<and>
         process_add (update_settings s) dst (Some src) n =
           (update_settings s, map2 (\<lambda>d x. d + x) (take n dst) (take n src) @ drop n dst) \<and>
         process_mul (update_settings s) dst (Some src) n =
           (update_settings s, map2 (\<lambda>d x. d * x) (take n dst) (take n src) @ drop n dst) \<and>
         (\<forall>i<n. snd (process_overwrite (update_settings s) dst (Some src) n) ! i = src ! i \<and>
                snd (process_add (update_settings s) dst (Some src) n) ! i = dst ! i + src ! i \<and>
                snd (process_mul (update_settings s) dst (Some src) n) ! i = dst ! i * src ! i) \<and>
         (\<forall>i. n \<le> i \<and> i < length dst \<longrightarrow>
                snd (process_overwrite (update_settings s) dst (Some src) n) ! i = dst ! i \<and>
                snd (process_add (update_settings s) dst (Some src) n) ! i = dst ! i \<and>
                snd (process_mul (update_settings s) dst (Some src) n) ! i = dst ! i)"
proof -
  have byp: "bBypass (update_settings s)"
    using assms(2) by (simp add: update_settings_derived(6) [OF assms(1)])
  have n: "n \<le> length src" using assms(3,4) by simp
  have ov: "process_overwrite (update_settings s) dst (Some src) n =
              (update_settings s, dsp_copy dst src n)"
    and ad: "process_add (update_settings s) dst (Some src) n =
              (update_settings s, dsp_add2 dst src n)"
    and mu: "process_mul (update_settings s) dst (Some src) n =
              (update_settings s, dsp_mul2 dst src n)"
    using byp by (simp_all add: process_overwrite_def process_add_def process_mul_def)
  show ?thesis
    unfolding ov ad mu snd_conv
    using byp dsp_nth_below [OF assms(4) n] dsp_nth_above [OF assms(4) n]
    by (simp add: dsp_copy_def dsp_add2_def dsp_mul2_def)
qed

theorem bypass_identity_witness:
  "process_overwrite (update_settings (set_slope 3 STLT_SLOPE_UNIT_NONE construct))
       [1, 2, 3] (Some [10, 20, 30]) 2 =
     (update_settings (set_slope 3 STLT_SLOPE_UNIT_NONE construct), [10, 20, 3]) \<and>
   process_add (update_settings (set_slope 3 STLT_SLOPE_UNIT_NONE construct))
       [1, 2, 3] (Some [10, 20, 30]) 2 =
     (update_settings (set_slope 3 STLT_SLOPE_UNIT_NONE construct), [11, 22, 3]) \<and>
   process_mul (update_settings (set_slope 3 STLT_SLOPE_UNIT_NONE construct))
       [1, 2, 3] (Some [10, 20, 30]) 2 =
     (update_settings (set_slope 3 STLT_SLOPE_UNIT_NONE construct), [10, 40, 3])"
proof -
  have h: "bSync (set_slope 3 STLT_SLOPE_UNIT_NONE construct)"
    "enSlopeUnit (set_slope 3 STLT_SLOPE_UNIT_NONE construct) = STLT_SLOPE_UNIT_NONE"
    "length [10, 20, 30 :: real] = length [1, 2, 3 :: real]"
    "(2 :: nat) \<le> length [1, 2, 3 :: real]"
    by (simp_all add: set_slope_def)
  show ?thesis
    using bypass_identity [OF h] by (simp add: numeral_2_eq_2)
qed

text \<open>
  C4. With an absent source the additive entry point leaves the destination unchanged,
  and the multiplicative and the overwriting entry points set its first \<open>count\<close>
  samples to zero; this does not depend on the bypass flag, and the object is left as
  it was.
\<close>

theorem absent_source_identity:
  assumes "n \<le> length dst"
  shows "process_add s dst None n = (s, dst) \<and>
         process_mul s dst None n = (s, replicate n 0 @ drop n dst) \<and>
         process_overwrite s dst None n = (s, replicate n 0 @ drop n dst) \<and>
         length (replicate n (0::real) @ drop n dst) = length dst \<and>
         (\<forall>i<n. snd (process_mul s dst None n) ! i = 0 \<and>
                snd (process_overwrite s dst None n) ! i = 0)"
  using assms
  by (simp add: process_add_def process_mul_def process_overwrite_def dsp_fill_zero_def
        nth_append)

theorem absent_source_identity_witness:
  "process_add construct [1, 2, 3] None 2 = (construct, [1, 2, 3]) \<and>
   process_mul construct [1, 2, 3] None 2 = (construct, [0, 0, 3]) \<and>
   process_overwrite (construct\<lparr> bBypass := True \<rparr>) [1, 2, 3] None 2 =
     (construct\<lparr> bBypass := True \<rparr>, [0, 0, 3])"
proof -
  have h: "(2 :: nat) \<le> length [1, 2, 3 :: real]" by simp
  show ?thesis
    using absent_source_identity [OF h, of construct]
      absent_source_identity [OF h, of "construct\<lparr> bBypass := True \<rparr>"]
    by (simp add: numeral_2_eq_2)
qed

subsection \<open>Running the chain over consecutive pieces of a stream\<close>

lemma chain_run_length: "length (snd (chain_run secs xs)) = length xs"
  by (induction xs arbitrary: secs) (simp_all add: split_beta Let_def)

lemma chain_run_append:
  "chain_run secs (xs @ ys) =
     (fst (chain_run (fst (chain_run secs xs)) ys),
      snd (chain_run secs xs) @ snd (chain_run (fst (chain_run secs xs)) ys))"
  by (induction xs arbitrary: secs) (simp_all add: split_beta Let_def)

lemma process_overwrite_active:
  "\<not> bBypass s \<Longrightarrow>
   process_overwrite s dst (Some src) k =
     (s\<lparr> sFilter := (sFilter s)\<lparr> vChains := fst (chain_run (vChains (sFilter s)) (take k src)) \<rparr> \<rparr>,
      snd (chain_run (vChains (sFilter s)) (take k src)) @ drop k dst)"
  by (simp add: process_overwrite_def FilterBank_process_def split_beta Let_def)

lemma process_overwrite_bypass:
  "bBypass s \<Longrightarrow> process_overwrite s dst (Some src) k = (s, take k src @ drop k dst)"
  by (simp add: process_overwrite_def dsp_copy_def)

lemma process_overwrite_split:
  assumes "n + m \<le> length src" and "n + m \<le> length dst"
  shows "process_overwrite s dst (Some src) (n + m) =
     (fst (process_overwrite (fst (process_overwrite s dst (Some src) n))
             (drop n (snd (process_overwrite s dst (Some src) n))) (Some (drop n src)) m),
      take n (snd (process_overwrite s dst (Some src) n)) @
      snd (process_overwrite (fst (process_overwrite s dst (Some src) n))
             (drop n (snd (process_overwrite s dst (Some src) n))) (Some (drop n src)) m))"
proof (cases "bBypass s")
  case True
  have n: "length (take n src) = n" using assms(1) by simp
  have t: "take (n + m) src = take n src @ take m (drop n src)"
    by (rule take_add)
  have d: "drop (n + m) dst = drop m (drop n dst)"
    by (simp add: add.commute)
  show ?thesis
    using True n by (simp add: process_overwrite_bypass t d)
next
  case False
  let ?r = "chain_run (vChains (sFilter s)) (take n src)"
  have len: "length (snd ?r) = n"
    using assms(1) by (simp add: chain_run_length)
  have t: "take (n + m) src = take n src @ take m (drop n src)"
    by (rule take_add)
  have d: "drop (n + m) dst = drop m (drop n dst)"
    by (simp add: add.commute)
  show ?thesis
    using False len
    by (simp add: process_overwrite_active t d chain_run_append)
qed

text \<open>
  The additive and the multiplicative entry points split a call into blocks of at most
  \<^verbatim>\<open>BUF_LIM_SIZE\<close> samples. The delay lines are carried from block to block, so the
  loop gives what one run of the chain over the whole call gives.
\<close>

lemma FilterBank_process_run:
  "FilterBank_process fb dst src count =
     (fb\<lparr> vChains := fst (chain_run (vChains fb) (take count src)) \<rparr>,
      snd (chain_run (vChains fb) (take count src)) @ drop count dst)"
  by (simp add: FilterBank_process_def split_beta)

lemma process_add_loop_run:
  assumes "offset \<le> count" and "count \<le> length src" and "count \<le> length dst"
  shows "process_add_loop s dst src count offset =
     (s\<lparr> sFilter := (sFilter s)
           \<lparr> vChains := fst (chain_run (vChains (sFilter s))
                                (take (count - offset) (drop offset src))) \<rparr> \<rparr>,
      take offset dst @
      map2 (\<lambda>d x. d + x) (take (count - offset) (drop offset dst))
        (snd (chain_run (vChains (sFilter s)) (take (count - offset) (drop offset src)))) @
      drop count dst)"
  using assms
proof (induction "count - offset" arbitrary: s dst offset rule: less_induct)
  case less
  show ?case
  proof (cases "offset < count")
    case False
    with less.prems have "offset = count" by simp
    then show ?thesis
      by (subst process_add_loop.simps) simp
  next
    case True
    define to_do where "to_do = min (count - offset) BUF_LIM_SIZE"
    define rest where "rest = count - (offset + to_do)"
    have td: "0 < to_do" "to_do \<le> count - offset" "to_do \<le> BUF_LIM_SIZE"
      using True by (simp_all add: to_do_def BUF_LIM_SIZE_def)
    have split: "count - offset = to_do + rest" using td by (simp add: rest_def)
    have comm: "to_do + offset = offset + to_do" by simp
    let ?secs = "vChains (sFilter s)"
    let ?x1 = "take to_do (drop offset src)"
    let ?x2 = "take rest (drop (offset + to_do) src)"
    let ?r1 = "chain_run ?secs ?x1"
    let ?r2 = "chain_run (fst ?r1) ?x2"
    have "to_do \<le> length src - offset" using td(2) less.prems(2) by linarith
    then have lx1: "length ?x1 = to_do" by (simp add: min_def)
    have ly1: "length (snd ?r1) = to_do" unfolding chain_run_length by (rule lx1)
    have xs: "take (count - offset) (drop offset src) = ?x1 @ ?x2"
      unfolding split take_add drop_drop comm by (rule refl)
    have run: "chain_run ?secs (take (count - offset) (drop offset src)) =
                 (fst ?r2, snd ?r1 @ snd ?r2)"
      unfolding xs by (rule chain_run_append)
    let ?vTemp = "snd ?r1 @ drop to_do (replicate BUF_LIM_SIZE 0)"
    let ?s1 = "s\<lparr> sFilter := (sFilter s)\<lparr> vChains := fst ?r1 \<rparr> \<rparr>"
    let ?d1 = "take offset dst @ dsp_add2 (drop offset dst) ?vTemp to_do"
    have step: "process_add_loop s dst src count offset =
                process_add_loop ?s1 ?d1 src count (offset + to_do)"
      using True
      by (subst process_add_loop.simps)
         (simp add: FilterBank_process_run Let_def to_do_def)
    have "to_do \<le> length dst - offset" using td(2) less.prems(3) by linarith
    then have ld: "length (take to_do (drop offset dst)) = to_do" by (simp add: min_def)
    have add2: "dsp_add2 (drop offset dst) ?vTemp to_do =
                 map2 (\<lambda>d x. d + x) (take to_do (drop offset dst)) (snd ?r1) @
                 drop (offset + to_do) dst"
      using ly1 by (simp add: dsp_add2_def comm)
    have lm: "length (map2 (\<lambda>d x. d + x) (take to_do (drop offset dst)) (snd ?r1)) = to_do"
      using ld ly1 by simp
    have lo: "length (take offset dst) = offset" using less.prems True by simp
    have d1: "?d1 = take offset dst @
                 map2 (\<lambda>d x. d + x) (take to_do (drop offset dst)) (snd ?r1) @
                 drop (offset + to_do) dst"
      unfolding add2 ..
    have d1_take: "take (offset + to_do) ?d1 =
                     take offset dst @
                     map2 (\<lambda>d x. d + x) (take to_do (drop offset dst)) (snd ?r1)"
      unfolding d1 using lo lm by simp
    have d1_drop: "drop (offset + to_do) ?d1 = drop (offset + to_do) dst"
      unfolding d1 using lo lm by simp
    have d1_len: "length ?d1 = length dst"
      unfolding d1 using lo lm less.prems td by simp
    have cnt: "count = rest + (offset + to_do)"
      using split less.prems(1) by linarith
    have d1_dropc: "drop count ?d1 = drop count dst"
    proof -
      have "drop (rest + (offset + to_do)) ?d1 = drop rest (drop (offset + to_do) ?d1)"
        by (rule drop_drop [symmetric])
      also have "\<dots> = drop rest (drop (offset + to_do) dst)"
        unfolding d1_drop ..
      also have "\<dots> = drop (rest + (offset + to_do)) dst"
        by (rule drop_drop)
      finally show ?thesis unfolding cnt [symmetric] .
    qed
    have dec: "count - (offset + to_do) < count - offset" using td True by simp
    have p1: "offset + to_do \<le> count" using td by simp
    have p3: "count \<le> length ?d1" using d1_len less.prems by simp
    have ih: "process_add_loop ?s1 ?d1 src count (offset + to_do) =
      (?s1\<lparr> sFilter := (sFilter ?s1)\<lparr> vChains := fst ?r2 \<rparr> \<rparr>,
       take (offset + to_do) ?d1 @
       map2 (\<lambda>d x. d + x) (take rest (drop (offset + to_do) ?d1)) (snd ?r2) @
       drop count ?d1)"
      using less.hyps [OF dec p1 less.prems(2) p3, of ?s1]
      by (simp add: rest_def)
    have zipsplit:
      "map2 (\<lambda>d x. d + x) (take (count - offset) (drop offset dst)) (snd ?r1 @ snd ?r2) =
       map2 (\<lambda>d x. d + x) (take to_do (drop offset dst)) (snd ?r1) @
       map2 (\<lambda>d x. d + x) (take rest (drop (offset + to_do) dst)) (snd ?r2)"
    proof -
      have "take (count - offset) (drop offset dst) =
            take to_do (drop offset dst) @ take rest (drop (offset + to_do) dst)"
        unfolding split take_add drop_drop comm by (rule refl)
      then show ?thesis using ld ly1 by simp
    qed
    show ?thesis
      unfolding step ih run fst_conv snd_conv zipsplit d1_take d1_drop d1_dropc
      by simp
  qed
qed

lemma process_mul_loop_run:
  assumes "offset \<le> count" and "count \<le> length src" and "count \<le> length dst"
  shows "process_mul_loop s dst src count offset =
     (s\<lparr> sFilter := (sFilter s)
           \<lparr> vChains := fst (chain_run (vChains (sFilter s))
                                (take (count - offset) (drop offset src))) \<rparr> \<rparr>,
      take offset dst @
      map2 (\<lambda>d x. d * x) (take (count - offset) (drop offset dst))
        (snd (chain_run (vChains (sFilter s)) (take (count - offset) (drop offset src)))) @
      drop count dst)"
  using assms
proof (induction "count - offset" arbitrary: s dst offset rule: less_induct)
  case less
  show ?case
  proof (cases "offset < count")
    case False
    with less.prems have "offset = count" by simp
    then show ?thesis
      by (subst process_mul_loop.simps) simp
  next
    case True
    define to_do where "to_do = min (count - offset) BUF_LIM_SIZE"
    define rest where "rest = count - (offset + to_do)"
    have td: "0 < to_do" "to_do \<le> count - offset" "to_do \<le> BUF_LIM_SIZE"
      using True by (simp_all add: to_do_def BUF_LIM_SIZE_def)
    have split: "count - offset = to_do + rest" using td by (simp add: rest_def)
    have comm: "to_do + offset = offset + to_do" by simp
    let ?secs = "vChains (sFilter s)"
    let ?x1 = "take to_do (drop offset src)"
    let ?x2 = "take rest (drop (offset + to_do) src)"
    let ?r1 = "chain_run ?secs ?x1"
    let ?r2 = "chain_run (fst ?r1) ?x2"
    have "to_do \<le> length src - offset" using td(2) less.prems(2) by linarith
    then have lx1: "length ?x1 = to_do" by (simp add: min_def)
    have ly1: "length (snd ?r1) = to_do" unfolding chain_run_length by (rule lx1)
    have xs: "take (count - offset) (drop offset src) = ?x1 @ ?x2"
      unfolding split take_add drop_drop comm by (rule refl)
    have run: "chain_run ?secs (take (count - offset) (drop offset src)) =
                 (fst ?r2, snd ?r1 @ snd ?r2)"
      unfolding xs by (rule chain_run_append)
    let ?vTemp = "snd ?r1 @ drop to_do (replicate BUF_LIM_SIZE 0)"
    let ?s1 = "s\<lparr> sFilter := (sFilter s)\<lparr> vChains := fst ?r1 \<rparr> \<rparr>"
    let ?d1 = "take offset dst @ dsp_mul2 (drop offset dst) ?vTemp to_do"
    have step: "process_mul_loop s dst src count offset =
                process_mul_loop ?s1 ?d1 src count (offset + to_do)"
      using True
      by (subst process_mul_loop.simps)
         (simp add: FilterBank_process_run Let_def to_do_def)
    have "to_do \<le> length dst - offset" using td(2) less.prems(3) by linarith
    then have ld: "length (take to_do (drop offset dst)) = to_do" by (simp add: min_def)
    have mul2: "dsp_mul2 (drop offset dst) ?vTemp to_do =
                 map2 (\<lambda>d x. d * x) (take to_do (drop offset dst)) (snd ?r1) @
                 drop (offset + to_do) dst"
      using ly1 by (simp add: dsp_mul2_def comm)
    have lm: "length (map2 (\<lambda>d x. d * x) (take to_do (drop offset dst)) (snd ?r1)) = to_do"
      using ld ly1 by simp
    have lo: "length (take offset dst) = offset" using less.prems True by simp
    have d1: "?d1 = take offset dst @
                 map2 (\<lambda>d x. d * x) (take to_do (drop offset dst)) (snd ?r1) @
                 drop (offset + to_do) dst"
      unfolding mul2 ..
    have d1_take: "take (offset + to_do) ?d1 =
                     take offset dst @
                     map2 (\<lambda>d x. d * x) (take to_do (drop offset dst)) (snd ?r1)"
      unfolding d1 using lo lm by simp
    have d1_drop: "drop (offset + to_do) ?d1 = drop (offset + to_do) dst"
      unfolding d1 using lo lm by simp
    have d1_len: "length ?d1 = length dst"
      unfolding d1 using lo lm less.prems td by simp
    have cnt: "count = rest + (offset + to_do)"
      using split less.prems(1) by linarith
    have d1_dropc: "drop count ?d1 = drop count dst"
    proof -
      have "drop (rest + (offset + to_do)) ?d1 = drop rest (drop (offset + to_do) ?d1)"
        by (rule drop_drop [symmetric])
      also have "\<dots> = drop rest (drop (offset + to_do) dst)"
        unfolding d1_drop ..
      also have "\<dots> = drop (rest + (offset + to_do)) dst"
        by (rule drop_drop)
      finally show ?thesis unfolding cnt [symmetric] .
    qed
    have dec: "count - (offset + to_do) < count - offset" using td True by simp
    have p1: "offset + to_do \<le> count" using td by simp
    have p3: "count \<le> length ?d1" using d1_len less.prems by simp
    have ih: "process_mul_loop ?s1 ?d1 src count (offset + to_do) =
      (?s1\<lparr> sFilter := (sFilter ?s1)\<lparr> vChains := fst ?r2 \<rparr> \<rparr>,
       take (offset + to_do) ?d1 @
       map2 (\<lambda>d x. d * x) (take rest (drop (offset + to_do) ?d1)) (snd ?r2) @
       drop count ?d1)"
      using less.hyps [OF dec p1 less.prems(2) p3, of ?s1]
      by (simp add: rest_def)
    have zipsplit:
      "map2 (\<lambda>d x. d * x) (take (count - offset) (drop offset dst)) (snd ?r1 @ snd ?r2) =
       map2 (\<lambda>d x. d * x) (take to_do (drop offset dst)) (snd ?r1) @
       map2 (\<lambda>d x. d * x) (take rest (drop (offset + to_do) dst)) (snd ?r2)"
    proof -
      have "take (count - offset) (drop offset dst) =
            take to_do (drop offset dst) @ take rest (drop (offset + to_do) dst)"
        unfolding split take_add drop_drop comm by (rule refl)
      then show ?thesis using ld ly1 by simp
    qed
    show ?thesis
      unfolding step ih run fst_conv snd_conv zipsplit d1_take d1_drop d1_dropc
      by simp
  qed
qed

lemma process_add_active:
  assumes "\<not> bBypass s" and "count \<le> length src" and "count \<le> length dst"
  shows "process_add s dst (Some src) count =
     (s\<lparr> sFilter := (sFilter s)
           \<lparr> vChains := fst (chain_run (vChains (sFilter s)) (take count src)) \<rparr> \<rparr>,
      map2 (\<lambda>d x. d + x) (take count dst)
        (snd (chain_run (vChains (sFilter s)) (take count src))) @
      drop count dst)"
  using assms(1) process_add_loop_run [of 0 count src dst s, OF _ assms(2,3)]
  by (simp add: process_add_def)

lemma process_mul_active:
  assumes "\<not> bBypass s" and "count \<le> length src" and "count \<le> length dst"
  shows "process_mul s dst (Some src) count =
     (s\<lparr> sFilter := (sFilter s)
           \<lparr> vChains := fst (chain_run (vChains (sFilter s)) (take count src)) \<rparr> \<rparr>,
      map2 (\<lambda>d x. d * x) (take count dst)
        (snd (chain_run (vChains (sFilter s)) (take count src))) @
      drop count dst)"
  using assms(1) process_mul_loop_run [of 0 count src dst s, OF _ assms(2,3)]
  by (simp add: process_mul_def)

text \<open>
  C2. The overwriting entry point run once over a whole stream gives, sample for sample,
  the output of any partition of the stream into consecutive calls, and leaves the object
  in the same state: the delay lines of the sections are carried from one call to the
  next. This holds for every object state, so in particular for a synchronized object
  that is not in bypass, and for every length, so in particular beyond 256 samples.
\<close>

theorem block_size_invariance:
  assumes "sum_list ns \<le> length src" and "sum_list ns \<le> length dst"
  shows "overwrite_chunks s dst src ns = process_overwrite s dst (Some src) (sum_list ns)"
  using assms
proof (induction ns arbitrary: s dst src)
  case Nil
  show ?case
    by (cases "bBypass s")
       (simp_all add: process_overwrite_active process_overwrite_bypass)
next
  case (Cons n ns)
  let ?p = "process_overwrite s dst (Some src) n"
  have n: "n \<le> length src" "n \<le> length dst" using Cons.prems by simp_all
  have ld: "length (snd ?p) = length dst"
    using n by (cases "bBypass s")
      (simp_all add: process_overwrite_active process_overwrite_bypass chain_run_length)
  have a: "sum_list ns \<le> length (drop n src)" using Cons.prems by simp
  have b: "sum_list ns \<le> length (drop n (snd ?p))" using Cons.prems ld by simp
  have "overwrite_chunks s dst src (n # ns) =
          (fst (overwrite_chunks (fst ?p) (drop n (snd ?p)) (drop n src) ns),
           take n (snd ?p) @ snd (overwrite_chunks (fst ?p) (drop n (snd ?p)) (drop n src) ns))"
    by (simp add: split_beta Let_def)
  also have "\<dots> = process_overwrite s dst (Some src) (n + sum_list ns)"
    unfolding Cons.IH [OF a b]
    using process_overwrite_split [of n "sum_list ns" src dst s] Cons.prems by simp
  finally show ?case by simp
qed

theorem block_size_invariance_witness:
  "overwrite_chunks (update_settings (set_sample_rate 44100 construct))
     (replicate 600 0) (replicate 600 1) [256, 256, 88] =
   process_overwrite (update_settings (set_sample_rate 44100 construct))
     (replicate 600 0) (Some (replicate 600 1)) 600"
  using block_size_invariance [of "[256, 256, 88]" "replicate 600 1" "replicate 600 0"
          "update_settings (set_sample_rate 44100 construct)"]
  by simp

subsection \<open>The response of a normalized first-order section\<close>

lemma element_at_dc:
  "enNorm s = STLT_NORM_AT_DC \<or> enNorm s = STLT_NORM_AUTO \<Longrightarrow>
   compute_bilinear_element s negZero negPole =
     \<lparr> b0 = negZero * (negPole / negZero), b1 = 1 * (negPole / negZero), a0 = negPole, a1 = 1 \<rparr>"
  by (auto simp add: compute_bilinear_element_def)

lemma element_at_nyquist:
  "enNorm s = STLT_NORM_AT_NYQUIST \<Longrightarrow>
   compute_bilinear_element s negZero negPole =
     \<lparr> b0 = negZero *
              (1 / sqrt (((pi * pi * fs s * fs s + negPole * negZero) /
                          (pi * pi * fs s * fs s + negPole * negPole)) *
                         ((pi * pi * fs s * fs s + negPole * negZero) /
                          (pi * pi * fs s * fs s + negPole * negPole)) +
                         (pi * fs s * (negPole - negZero) /
                          (pi * pi * fs s * fs s + negPole * negPole)) *
                         (pi * fs s * (negPole - negZero) /
                          (pi * pi * fs s * fs s + negPole * negPole)))),
        b1 = 1 *
              (1 / sqrt (((pi * pi * fs s * fs s + negPole * negZero) /
                          (pi * pi * fs s * fs s + negPole * negPole)) *
                         ((pi * pi * fs s * fs s + negPole * negZero) /
                          (pi * pi * fs s * fs s + negPole * negPole)) +
                         (pi * fs s * (negPole - negZero) /
                          (pi * pi * fs s * fs s + negPole * negPole)) *
                         (pi * fs s * (negPole - negZero) /
                          (pi * pi * fs s * fs s + negPole * negPole)))),
        a0 = negPole, a1 = 1 \<rparr>"
  by (simp add: compute_bilinear_element_def Let_def)

lemma nyquist_gain_sq:
  fixes w z p :: real
  assumes "0 < z" "0 < p"
  shows "((w * w + p * z) / (w * w + p * p)) * ((w * w + p * z) / (w * w + p * p)) +
         (w * (p - z) / (w * w + p * p)) * (w * (p - z) / (w * w + p * p)) =
         (z\<^sup>2 + w\<^sup>2) / (p\<^sup>2 + w\<^sup>2)"
proof -
  have d: "w * w + p * p > 0" using assms(2) by (simp add: add_nonneg_pos)
  then have d0: "w * w + p * p \<noteq> 0" by linarith
  have d2: "p\<^sup>2 + w\<^sup>2 = w * w + p * p" by (simp add: power2_eq_square)
  have "((w * w + p * z) / (w * w + p * p)) * ((w * w + p * z) / (w * w + p * p)) +
         (w * (p - z) / (w * w + p * p)) * (w * (p - z) / (w * w + p * p)) =
        ((w * w + p * z) * (w * w + p * z) + (w * (p - z)) * (w * (p - z))) /
          ((w * w + p * p) * (w * w + p * p))"
    by (simp only: times_divide_times_eq add_divide_distrib [symmetric])
  also have "(w * w + p * z) * (w * w + p * z) + (w * (p - z)) * (w * (p - z)) =
             (z\<^sup>2 + w\<^sup>2) * (w * w + p * p)"
    by (simp add: power2_eq_square algebra_simps)
  also have "(z\<^sup>2 + w\<^sup>2) * (w * w + p * p) / ((w * w + p * p) * (w * w + p * p)) =
             (z\<^sup>2 + w\<^sup>2) / (p\<^sup>2 + w\<^sup>2)"
    using d0 by (simp add: d2)
  finally show ?thesis .
qed

lemma cmod_first_order:
  fixes g z p w :: real
  shows "cmod ((of_real (1 * g) * (\<i> * of_real w) + of_real (z * g)) /
               (of_real 1 * (\<i> * of_real w) + of_real p)) =
         \<bar>g\<bar> * sqrt (z\<^sup>2 + w\<^sup>2) / sqrt (p\<^sup>2 + w\<^sup>2)"
proof -
  have n: "of_real (1 * g) * (\<i> * of_real w) + of_real (z * g) = of_real g * Complex z w"
    by (simp add: complex_eq_iff)
  have d: "of_real 1 * (\<i> * of_real w) + of_real p = Complex p w"
    by (simp add: complex_eq_iff)
  show ?thesis
    unfolding n d by (simp add: norm_divide norm_mult complex_norm)
qed

text \<open>
  C6. For positive \<open>negZero\<close> and \<open>negPole\<close>, under exact real arithmetic: with the
  normalization \<^verbatim>\<open>AT_DC\<close> the element is the section b0 = negZero, b1 = 1,
  a0 = negPole, a1 = 1 with its numerator scaled by a0 / b0, and its response at the
  frequency 0 has magnitude 1; with the normalization \<^verbatim>\<open>AT_NYQUIST\<close> the numerator
  is scaled by the reciprocal of the magnitude of the unscaled response at the angular
  frequency pi times the sample rate, and the response of the element there has
  magnitude 1.
\<close>

theorem gain_normalization:
  assumes "0 < negZero" and "0 < negPole"
  shows "(enNorm s = STLT_NORM_AT_DC \<longrightarrow>
            compute_bilinear_element s negZero negPole =
              \<lparr> b0 = negZero * (negPole / negZero), b1 = 1 * (negPole / negZero),
                a0 = negPole, a1 = 1 \<rparr> \<and>
            cmod (analog_response (compute_bilinear_element s negZero negPole) 0) = 1) \<and>
         (enNorm s = STLT_NORM_AT_NYQUIST \<longrightarrow>
            (\<exists>g. g = 1 / cmod (analog_response \<lparr> b0 = negZero, b1 = 1, a0 = negPole, a1 = 1 \<rparr>
                                  (\<i> * of_real (pi * fs s))) \<and>
                 compute_bilinear_element s negZero negPole =
                   \<lparr> b0 = negZero * g, b1 = 1 * g, a0 = negPole, a1 = 1 \<rparr>) \<and>
            cmod (analog_response (compute_bilinear_element s negZero negPole)
                    (\<i> * of_real (pi * fs s))) = 1)"
proof (intro conjI impI)
  assume dc: "enNorm s = STLT_NORM_AT_DC"
  then show "compute_bilinear_element s negZero negPole =
              \<lparr> b0 = negZero * (negPole / negZero), b1 = 1 * (negPole / negZero),
                a0 = negPole, a1 = 1 \<rparr>"
    by (rule element_at_dc [OF disjI1])
  from dc show "cmod (analog_response (compute_bilinear_element s negZero negPole) 0) = 1"
    using assms by (simp add: element_at_dc analog_response_def)
next
  assume ny: "enNorm s = STLT_NORM_AT_NYQUIST"
  define w where "w = pi * fs s"
  define q where "q = (negZero\<^sup>2 + w\<^sup>2) / (negPole\<^sup>2 + w\<^sup>2)"
  have zpos: "0 < negZero\<^sup>2 + w\<^sup>2" using assms(1) by (simp add: add_pos_nonneg)
  have ppos: "0 < negPole\<^sup>2 + w\<^sup>2" using assms(2) by (simp add: add_pos_nonneg)
  have qpos: "0 < q" unfolding q_def using zpos ppos by simp
  have ww: "pi * pi * fs s * fs s = w * w" by (simp add: w_def)
  have el: "compute_bilinear_element s negZero negPole =
     \<lparr> b0 = negZero * (1 / sqrt q), b1 = 1 * (1 / sqrt q), a0 = negPole, a1 = 1 \<rparr>"
    unfolding element_at_nyquist [OF ny] ww q_def
    using nyquist_gain_sq [OF assms, of w] by (simp add: w_def)
  have "cmod (analog_response \<lparr> b0 = negZero, b1 = 1, a0 = negPole, a1 = 1 \<rparr>
                (\<i> * of_real w)) =
        \<bar>1\<bar> * sqrt (negZero\<^sup>2 + w\<^sup>2) / sqrt (negPole\<^sup>2 + w\<^sup>2)"
    unfolding analog_response_def bilinear_spec_t.simps
    using cmod_first_order [of 1 w negZero negPole] by simp
  also have "\<dots> = sqrt q" by (simp add: q_def real_sqrt_divide)
  finally have raw: "cmod (analog_response \<lparr> b0 = negZero, b1 = 1, a0 = negPole, a1 = 1 \<rparr>
                (\<i> * of_real w)) = sqrt q" .
  show "\<exists>g. g = 1 / cmod (analog_response \<lparr> b0 = negZero, b1 = 1, a0 = negPole, a1 = 1 \<rparr>
                                  (\<i> * of_real (pi * fs s))) \<and>
                 compute_bilinear_element s negZero negPole =
                   \<lparr> b0 = negZero * g, b1 = 1 * g, a0 = negPole, a1 = 1 \<rparr>"
    using raw el unfolding w_def by simp
  have "cmod (analog_response (compute_bilinear_element s negZero negPole) (\<i> * of_real w)) =
        \<bar>1 / sqrt q\<bar> * sqrt (negZero\<^sup>2 + w\<^sup>2) / sqrt (negPole\<^sup>2 + w\<^sup>2)"
    unfolding el analog_response_def bilinear_spec_t.simps by (rule cmod_first_order)
  also have "\<dots> = (1 / sqrt q) * sqrt q"
    using qpos by (simp add: q_def real_sqrt_divide)
  also have "\<dots> = 1" using qpos by simp
  finally show "cmod (analog_response (compute_bilinear_element s negZero negPole)
                    (\<i> * of_real (pi * fs s))) = 1"
    by (simp add: w_def)
qed

theorem gain_normalization_witness:
  "cmod (analog_response
           (compute_bilinear_element (construct\<lparr> enNorm := STLT_NORM_AT_DC \<rparr>) 1 2) 0) = 1 \<and>
   cmod (analog_response
           (compute_bilinear_element
              (construct\<lparr> enNorm := STLT_NORM_AT_NYQUIST, nSampleRate := 48000 \<rparr>) 1 2)
           (\<i> * of_real (pi *
              fs (construct\<lparr> enNorm := STLT_NORM_AT_NYQUIST, nSampleRate := 48000 \<rparr>)))) = 1"
proof -
  have h: "(0::real) < 1" "(0::real) < 2" by simp_all
  have dc: "enNorm (construct\<lparr> enNorm := STLT_NORM_AT_DC \<rparr>) = STLT_NORM_AT_DC"
    by simp
  have ny: "enNorm (construct\<lparr> enNorm := STLT_NORM_AT_NYQUIST, nSampleRate := 48000 \<rparr>) =
              STLT_NORM_AT_NYQUIST"
    by simp
  from gain_normalization [OF h, of "construct\<lparr> enNorm := STLT_NORM_AT_DC \<rparr>"] dc
  have a: "cmod (analog_response
           (compute_bilinear_element (construct\<lparr> enNorm := STLT_NORM_AT_DC \<rparr>) 1 2) 0) = 1"
    by blast
  from gain_normalization [OF h,
        of "construct\<lparr> enNorm := STLT_NORM_AT_NYQUIST, nSampleRate := 48000 \<rparr>"] ny
  have b: "cmod (analog_response
           (compute_bilinear_element
              (construct\<lparr> enNorm := STLT_NORM_AT_NYQUIST, nSampleRate := 48000 \<rparr>) 1 2)
           (\<i> * of_real (pi *
              fs (construct\<lparr> enNorm := STLT_NORM_AT_NYQUIST, nSampleRate := 48000 \<rparr>)))) = 1"
    by blast
  from a b show ?thesis by (rule conjI)
qed

subsection \<open>What a rebuild depends on\<close>

lemma validate_band_idem:
  assumes "fs t = fs s"
    and "fLowerFrequency t = fLowerFrequency (validate_band s)"
    and "fUpperFrequency t = fUpperFrequency (validate_band s)"
  shows "fLowerFrequency (validate_band t) = fLowerFrequency (validate_band s)"
    and "fUpperFrequency (validate_band t) = fUpperFrequency (validate_band s)"
  unfolding validate_band_lower [of t] validate_band_upper [of t] assms
  unfolding validate_band_lower validate_band_upper DFL_LOWER_FREQUENCY_def DFL_UPPER_FREQUENCY_def
  by (auto split: if_splits)

lemma force_order_again:
  "nOrder t = nOrder (force_order s) \<Longrightarrow> nOrder (force_order t) = nOrder (force_order s)"
  using force_order_mod2 [of s]
  by (simp add: force_order_simps(1) [of t]) (simp add: force_order_simps)

lemma compute_bilinear_element_cong:
  "enNorm a = enNorm b \<Longrightarrow> nSampleRate a = nSampleRate b \<Longrightarrow>
   compute_bilinear_element a = compute_bilinear_element b"
  by (intro ext) (simp add: compute_bilinear_element_def fs_def Let_def split: stlt_norm_t.split)

lemma assemble_loop_cong:
  assumes "compute_bilinear_element a = compute_bilinear_element b"
  shows "assemble_loop a r c_fn order n negZero negPole fb =
         assemble_loop b r c_fn order n negZero negPole fb"
proof (induction "order - n" arbitrary: n negZero negPole fb)
  case 0
  then show ?case by (simp add: assemble_loop_exit)
next
  case (Suc m)
  have step: "assemble_loop a r c_fn order (Suc n) z p f =
              assemble_loop b r c_fn order (Suc n) z p f" for z p f
    using Suc.hyps(2) by (intro Suc.hyps(1)) simp
  show ?case
    by (subst assemble_loop.simps [of a], subst assemble_loop.simps [of b])
       (simp add: assms step Let_def split: option.split)
qed

lemma assemble_loop_nMaxItems:
  "nMaxItems (fst (assemble_loop s r c_fn order n negZero negPole fb)) = nMaxItems fb"
proof (induction "order - n" arbitrary: n negZero negPole fb)
  case 0
  then show ?case by (simp add: assemble_loop_exit)
next
  case (Suc m)
  have step: "nMaxItems (fst (assemble_loop s r c_fn order (Suc n) z p f)) = nMaxItems f" for z p f
    using Suc.hyps(2) by (intro Suc.hyps(1)) simp
  show ?case
    by (subst assemble_loop.simps)
       (simp add: step Let_def FilterBank_add_chain_def split: option.split)
qed

lemma FilterBank_begin_cong:
  "nMaxItems fa = nMaxItems fb \<Longrightarrow> FilterBank_begin fa = FilterBank_begin fb"
  by (simp add: FilterBank_begin_def)

lemma assemble_chain_nMaxItems:
  "nMaxItems (fst (assemble_chain s)) = nMaxItems (sFilter s)"
  by (simp add: assemble_chain_def Let_def assemble_loop_nMaxItems FilterBank_begin_def)

lemma assemble_chain_cong:
  assumes "nOrder a = nOrder b" "enNorm a = enNorm b" "fSlopeNepNep a = fSlopeNepNep b"
    "fLowerFrequency a = fLowerFrequency b" "fUpperFrequency a = fUpperFrequency b"
    "nSampleRate a = nSampleRate b" "nMaxItems (sFilter a) = nMaxItems (sFilter b)"
  shows "assemble_chain a = assemble_chain b"
  unfolding assemble_chain_def Let_def
  using assms
  by (simp add: fs_def FilterBank_begin_cong [OF assms(7)]
        assemble_loop_cong [OF compute_bilinear_element_cong [OF assms(2) assms(6)]])

lemma band_stage:
  "fLowerFrequency (validate_band (resolve_norm (convert_slope (force_order u)))) =
     fLowerFrequency (validate_band u)"
  "fUpperFrequency (validate_band (resolve_norm (convert_slope (force_order u)))) =
     fUpperFrequency (validate_band u)"
  by (simp_all add: validate_band_lower validate_band_upper fs_stage stage_simps)

lemma update_settings_sFilter_bypass:
  assumes "bSync s" and "bBypass (update_settings s)"
  shows "sFilter (update_settings s) = sFilter s"
proof -
  have "enSlopeUnit s = STLT_SLOPE_UNIT_NONE \<or>
        slope_converter (fSlopeVal s) (enSlopeUnit s) = 0"
    using assms(2) update_settings_derived(6) [OF assms(1)] by simp
  then show ?thesis
    using assms(1) by (auto simp add: update_settings_def Let_def stage_simps)
qed

lemma update_settings_sFilter_active:
  assumes "bSync s" and "\<not> bBypass (update_settings s)"
  shows "sFilter (update_settings s) =
     (if snd (assemble_chain
               ((validate_band (resolve_norm (convert_slope (force_order s))))
                  \<lparr> bBypass := False \<rparr>))
      then fst (assemble_chain
               ((validate_band (resolve_norm (convert_slope (force_order s))))
                  \<lparr> bBypass := False \<rparr>))
      else FilterBank_end True (fst (assemble_chain
               ((validate_band (resolve_norm (convert_slope (force_order s))))
                  \<lparr> bBypass := False \<rparr>))))"
proof -
  have nb: "\<not> (enSlopeUnit s = STLT_SLOPE_UNIT_NONE \<or>
            slope_converter (fSlopeVal s) (enSlopeUnit s) = 0)"
    using assms(2) update_settings_derived(6) [OF assms(1)] by simp
  show ?thesis
    using assms(1) nb
    by (simp add: update_settings_def Let_def stage_simps split_beta)
qed

lemma update_settings_nMaxItems:
  "nMaxItems (sFilter (update_settings s)) = nMaxItems (sFilter s)"
proof (cases "bSync s")
  case False
  then show ?thesis by (simp add: update_settings_def)
next
  case True
  show ?thesis
  proof (cases "bBypass (update_settings s)")
    case True
    with \<open>bSync s\<close> show ?thesis by (simp add: update_settings_sFilter_bypass)
  next
    case False
    show ?thesis
      unfolding update_settings_sFilter_active [OF \<open>bSync s\<close> False]
      by (simp add: assemble_chain_nMaxItems FilterBank_end_def stage_simps)
  qed
qed

text \<open>
  C9. Synchronizing twice in succession leaves the object exactly as synchronizing once
  does: the configuration, the derived state and the chain with its coefficients.
\<close>

theorem synchronize_idempotent:
  "update_settings (update_settings s) = update_settings s"
proof (cases "bSync s")
  case False
  then show ?thesis by (simp add: update_settings_def)
next
  case sync: True
  let ?t = "update_settings s"
  have tsync: "bSync ?t" using sync by (simp add: update_settings_config)
  note d = update_settings_derived [OF sync]
  note e = update_settings_derived [OF tsync]
  have conf: "enSlopeUnit ?t = enSlopeUnit s" "fSlopeVal ?t = fSlopeVal s"
    "nSampleRate ?t = nSampleRate s"
    by (simp_all add: update_settings_config)
  have fs: "fs ?t = fs s" by (simp add: fs_def conf)
  have ord: "nOrder (update_settings ?t) = nOrder ?t"
    unfolding e(1) d(1) by (rule force_order_again) (rule d(1))
  have slope: "fSlopeNepNep (update_settings ?t) = fSlopeNepNep ?t"
    unfolding e(2) d(2) conf ..
  have norm: "enNorm (update_settings ?t) = enNorm ?t"
    unfolding e(3) conf unfolding d(3) by simp
  have lower: "fLowerFrequency (update_settings ?t) = fLowerFrequency ?t"
    unfolding e(4) d(4) by (rule validate_band_idem(1) [OF fs d(4) d(5)])
  have upper: "fUpperFrequency (update_settings ?t) = fUpperFrequency ?t"
    unfolding e(5) d(5) by (rule validate_band_idem(2) [OF fs d(4) d(5)])
  have byp: "bBypass (update_settings ?t) = bBypass ?t"
    unfolding e(6) d(6) conf ..
  have filt: "sFilter (update_settings ?t) = sFilter ?t"
  proof (cases "bBypass ?t")
    case True
    with byp have "bBypass (update_settings ?t)" by simp
    then show ?thesis by (rule update_settings_sFilter_bypass [OF tsync])
  next
    case False
    with byp have nb: "\<not> bBypass (update_settings ?t)" by simp
    let ?a = "(validate_band (resolve_norm (convert_slope (force_order ?t))))\<lparr> bBypass := False \<rparr>"
    let ?b = "(validate_band (resolve_norm (convert_slope (force_order s))))\<lparr> bBypass := False \<rparr>"
    have "assemble_chain ?a = assemble_chain ?b"
    proof (rule assemble_chain_cong)
      show "nOrder ?a = nOrder ?b"
        using force_order_again [OF d(1)] by (simp add: stage_simps)
      have "enNorm ?a = enNorm (update_settings ?t)"
        by (simp add: stage_simps e(3))
      moreover have "enNorm ?b = enNorm ?t"
        by (simp add: stage_simps d(3))
      ultimately show "enNorm ?a = enNorm ?b"
        using norm by simp
      show "fSlopeNepNep ?a = fSlopeNepNep ?b"
        by (simp add: stage_simps conf)
      show "fLowerFrequency ?a = fLowerFrequency ?b"
        using validate_band_idem(1) [OF fs d(4) d(5)] by (simp add: band_stage)
      show "fUpperFrequency ?a = fUpperFrequency ?b"
        using validate_band_idem(2) [OF fs d(4) d(5)] by (simp add: band_stage)
      show "nSampleRate ?a = nSampleRate ?b"
        by (simp add: stage_simps conf)
      show "nMaxItems (sFilter ?a) = nMaxItems (sFilter ?b)"
        by (simp add: stage_simps update_settings_nMaxItems)
    qed
    then show ?thesis
      unfolding update_settings_sFilter_active [OF tsync nb]
        update_settings_sFilter_active [OF sync False]
      by simp
  qed
  show ?thesis
    by (rule SpectralTilt.equality)
       (simp_all add: ord slope norm lower upper byp filt update_settings_config)
qed

theorem synchronize_idempotent_witness:
  "update_settings (update_settings (set_sample_rate 44100 construct)) =
   update_settings (set_sample_rate 44100 construct)"
  by (rule synchronize_idempotent)

subsection \<open>What every reachable object satisfies\<close>

lemma FilterBank_process_nMaxItems:
  "nMaxItems (fst (FilterBank_process fb dst src count)) = nMaxItems fb"
  by (simp add: FilterBank_process_def split_beta)

lemma process_add_loop_inv:
  "bSync (fst (process_add_loop s dst src count offset)) = bSync s \<and>
   nMaxItems (sFilter (fst (process_add_loop s dst src count offset))) = nMaxItems (sFilter s)"
proof (induction "count - offset" arbitrary: s dst offset rule: less_induct)
  case less
  show ?case
  proof (cases "offset < count")
    case False
    then show ?thesis by (subst process_add_loop.simps, subst process_add_loop.simps) simp
  next
    case True
    then have dec: "count - (offset + min (count - offset) BUF_LIM_SIZE) < count - offset"
      by (simp add: BUF_LIM_SIZE_def)
    show ?thesis
      using True less [OF dec]
      by (subst process_add_loop.simps, subst process_add_loop.simps)
         (simp add: split_beta Let_def FilterBank_process_nMaxItems)
  qed
qed

lemma process_mul_loop_inv:
  "bSync (fst (process_mul_loop s dst src count offset)) = bSync s \<and>
   nMaxItems (sFilter (fst (process_mul_loop s dst src count offset))) = nMaxItems (sFilter s)"
proof (induction "count - offset" arbitrary: s dst offset rule: less_induct)
  case less
  show ?case
  proof (cases "offset < count")
    case False
    then show ?thesis by (subst process_mul_loop.simps, subst process_mul_loop.simps) simp
  next
    case True
    then have dec: "count - (offset + min (count - offset) BUF_LIM_SIZE) < count - offset"
      by (simp add: BUF_LIM_SIZE_def)
    show ?thesis
      using True less [OF dec]
      by (subst process_mul_loop.simps, subst process_mul_loop.simps)
         (simp add: split_beta Let_def FilterBank_process_nMaxItems)
  qed
qed

lemma process_inv:
  "bSync (fst (process_add s dst src count)) = bSync s"
  "nMaxItems (sFilter (fst (process_add s dst src count))) = nMaxItems (sFilter s)"
  "bSync (fst (process_mul s dst src count)) = bSync s"
  "nMaxItems (sFilter (fst (process_mul s dst src count))) = nMaxItems (sFilter s)"
  "bSync (fst (process_overwrite s dst src count)) = bSync s"
  "nMaxItems (sFilter (fst (process_overwrite s dst src count))) = nMaxItems (sFilter s)"
  by (simp_all add: process_add_def process_mul_def process_overwrite_def
        process_add_loop_inv process_mul_loop_inv FilterBank_process_nMaxItems split_beta
        split: option.split)

lemma reachable_inv:
  "reachable s \<Longrightarrow> bSync s \<and> nMaxItems (sFilter s) = 100"
proof (induction rule: reachable.induct)
  case r_construct
  show ?case by (simp add: construct_simps)
next
  case (r_update s)
  then show ?case by (simp add: update_settings_config update_settings_nMaxItems)
qed (simp_all add: set_order_def set_slope_def set_norm_def set_lower_frequency_def
       set_upper_frequency_def set_sample_rate_def process_inv)

text \<open>
  C10. For every object reachable through the public interface, whatever order has been
  requested, a synchronization that does not end in bypass never receives a null section
  pointer: the loop appends exactly effective order / 2 sections, at most 50 of the 100
  the chain was initialized with, and the rebuild transaction is closed.
\<close>

theorem capacity_never_exhausted:
  assumes "reachable s" and "\<not> bBypass (update_settings s)"
  shows "snd (assemble_chain
                ((validate_band (resolve_norm (convert_slope (force_order s))))
                   \<lparr> bBypass := False \<rparr>)) = False \<and>
         length (vChains (sFilter (update_settings s))) =
           unat (nOrder (update_settings s)) div 2 \<and>
         unat (nOrder (update_settings s)) div 2 \<le> 50 \<and>
         nMaxItems (sFilter (update_settings s)) = unat MAX_ORDER \<and>
         \<not> bBuilding (sFilter (update_settings s)) \<and>
         bSync (update_settings s)"
proof -
  from reachable_inv [OF assms(1)]
  have sync: "bSync s" and cap: "nMaxItems (sFilter s) = 100" by simp_all
  from cap have room: "50 \<le> nMaxItems (sFilter s)" by simp
  from update_settings_chain [OF sync assms(2) room] obtain secs where
    len: "length secs = unat (nOrder (update_settings s)) div 2"
    and null: "snd (assemble_chain
                ((validate_band (resolve_norm (convert_slope (force_order s))))
                   \<lparr> bBypass := False \<rparr>)) = False"
    and filt: "sFilter (update_settings s) =
             \<lparr> nMaxItems = nMaxItems (sFilter s), vChains = secs, bBuilding = False \<rparr>"
    by blast
  have "unat (nOrder (update_settings s)) \<le> 100"
    unfolding update_settings_derived(1) [OF sync] by (rule force_order_le)
  then have "unat (nOrder (update_settings s)) div 2 \<le> 50" by simp
  then show ?thesis
    using len null sync cap by (simp add: filt update_settings_config MAX_ORDER_def)
qed

theorem capacity_never_exhausted_witness:
  "length (vChains (sFilter (update_settings (set_sample_rate 44100 (set_order 101 construct))))) = 50 \<and>
   \<not> bBuilding (sFilter (update_settings (set_sample_rate 44100 (set_order 101 construct))))"
proof -
  let ?s = "set_sample_rate 44100 (set_order 101 construct)"
  have r: "reachable ?s"
    by (intro reachable.intros)
  have sync: "bSync ?s" by (simp add: set_sample_rate_def)
  have nb: "\<not> bBypass (update_settings ?s)"
    unfolding update_settings_derived(6) [OF sync]
    by (simp add: set_sample_rate_def set_order_def construct_simps slope_converter_def)
  have ord: "nOrder (update_settings ?s) = 100"
    unfolding update_settings_derived(1) [OF sync]
    by (simp add: force_order_simps set_sample_rate_def set_order_def MAX_ORDER_def)
  show ?thesis
    using capacity_never_exhausted [OF r nb] by (simp add: ord)
qed

end
